theory Spec2Isabelle
  imports Main "HOL-Library.Word"
begin

unbundle bit_operations_syntax

section \<open>Go values shared by the inspection commands\<close>

type_synonym byte = "8 word"
type_synonym bytes = "byte list"
type_synonym uint32 = "32 word"
type_synonym int64 = "64 word"
type_synonym path = string

text \<open>
  A Go \<^verbatim>\<open>error\<close> value: \<^verbatim>\<open>errors.New(msg)\<close>, or \<^verbatim>\<open>fmt.Errorf\<close> with a prefix and the
  verb \<^verbatim>\<open>%w\<close> wrapping another error. \<^verbatim>\<open>nil\<close> is \<open>None\<close> of \<open>error option\<close>. A
  command whose \<^verbatim>\<open>RunE\<close> returns a non-nil error exits with a non-zero status.
\<close>

datatype error = errors_New string | fmt_Errorf string error

subsection \<open>Standard library: path/filepath\<close>

text \<open>
  Modelled from the spec: \<^verbatim>\<open>filepath.Ext\<close> and \<^verbatim>\<open>filepath.WalkDir\<close> belong to Go's
  standard library, which is not among the repository's files. \<open>Ext\<close> scans the path
  from its end back to the last separator and returns the suffix that starts at the
  last dot found, or the empty string. \<open>WalkDir\<close> calls the visitor on every entry
  of the tree under the root, in order, each with the error met on reaching it (if
  any), and stops with the first error the visitor returns. The traversal of a
  root is given by the file system as the list of its entries.
\<close>

fun Ext_scan :: "string \<Rightarrow> string \<Rightarrow> string" where
  "Ext_scan [] suffix = []"
| "Ext_scan (c # front) suffix =
     (if c = CHR ''/'' then []
      else if c = CHR ''.'' then c # suffix
      else Ext_scan front (c # suffix))"

definition Ext :: "path \<Rightarrow> string" where
  "Ext p = Ext_scan (rev p) []"

fun WalkDir ::
  "(path \<times> error option) list \<Rightarrow> (path \<Rightarrow> error option \<Rightarrow> 's \<Rightarrow> error option \<times> 's) \<Rightarrow> 's
    \<Rightarrow> error option \<times> 's" where
  "WalkDir [] fn s = (None, s)"
| "WalkDir ((p, err) # entries) fn s =
     (case fn p err s of
        (Some e, s') \<Rightarrow> (Some e, s')
      | (None, s') \<Rightarrow> WalkDir entries fn s')"

subsection \<open>Standard library: unicode/utf8\<close>

text \<open>
  Modelled from the spec: series keys must be valid UTF-8, which the source checks
  with \<^verbatim>\<open>utf8.Valid\<close> of Go's standard library (not among the repository's files).
  \<open>first\<close> is the library's table of leading bytes: the size of the sequence and the
  range accepted for its second byte; every later byte lies in \<open>0x80..0xBF\<close>.
\<close>

definition first :: "byte \<Rightarrow> (nat \<times> byte \<times> byte) option" where
  "first b =
     (if 0xC2 \<le> b \<and> b \<le> 0xDF then Some (2, 0x80, 0xBF)
      else if b = 0xE0 then Some (3, 0xA0, 0xBF)
      else if 0xE1 \<le> b \<and> b \<le> 0xEC then Some (3, 0x80, 0xBF)
      else if b = 0xED then Some (3, 0x80, 0x9F)
      else if 0xEE \<le> b \<and> b \<le> 0xEF then Some (3, 0x80, 0xBF)
      else if b = 0xF0 then Some (4, 0x90, 0xBF)
      else if 0xF1 \<le> b \<and> b \<le> 0xF3 then Some (4, 0x80, 0xBF)
      else if b = 0xF4 then Some (4, 0x80, 0x8F)
      else None)"

fun utf8_Valid :: "bytes \<Rightarrow> bool" where
  "utf8_Valid [] = True"
| "utf8_Valid (b # p) =
     (if b < 0x80 then utf8_Valid p
      else
        (case first b of
           None \<Rightarrow> False
         | Some (sz, lo, hi) \<Rightarrow>
            (case p of
               [] \<Rightarrow> False
             | c1 # p1 \<Rightarrow>
                if c1 < lo \<or> hi < c1 then False
                else if sz = 2 then utf8_Valid p1
                else
                  (case p1 of
                     [] \<Rightarrow> False
                   | c2 # p2 \<Rightarrow>
                      if c2 < 0x80 \<or> 0xBF < c2 then False
                      else if sz = 3 then utf8_Valid p2
                      else
                        (case p2 of
                           [] \<Rightarrow> False
                         | c3 # p3 \<Rightarrow>
                            if c3 < 0x80 \<or> 0xBF < c3 then False
                            else utf8_Valid p3)))))"

subsection \<open>Standard library: hash/crc32\<close>

text \<open>
  Modelled from the spec: a block's checksum is CRC-32 with the IEEE polynomial, which
  the source computes with \<^verbatim>\<open>crc32.ChecksumIEEE\<close> of Go's standard library (not among
  the repository's files). This is the library's table-driven reference form: the
  table entry of a byte is that byte shifted out through the reflected polynomial
  eight times, and the update folds the message in byte by byte between two
  complements.
\<close>

definition IEEE :: uint32 where
  "IEEE = 0xedb88320"

definition crc_shift :: "uint32 \<Rightarrow> uint32" where
  "crc_shift crc = (if crc AND 1 = 1 then drop_bit 1 crc XOR IEEE else drop_bit 1 crc)"

primrec crc_shifts :: "nat \<Rightarrow> uint32 \<Rightarrow> uint32" where
  "crc_shifts 0 crc = crc"
| "crc_shifts (Suc j) crc = crc_shifts j (crc_shift crc)"

definition simpleMakeTable :: "byte \<Rightarrow> uint32" where
  "simpleMakeTable i = crc_shifts 8 (ucast i)"

fun simpleUpdate_loop :: "uint32 \<Rightarrow> bytes \<Rightarrow> uint32" where
  "simpleUpdate_loop crc [] = crc"
| "simpleUpdate_loop crc (v # p) =
     simpleUpdate_loop (simpleMakeTable (ucast crc XOR v) XOR drop_bit 8 crc) p"

definition simpleUpdate :: "uint32 \<Rightarrow> bytes \<Rightarrow> uint32" where
  "simpleUpdate crc p = NOT (simpleUpdate_loop (NOT crc) p)"

definition ChecksumIEEE :: "bytes \<Rightarrow> uint32" where
  "ChecksumIEEE data = simpleUpdate 0 data"

text \<open>Flipping bit \<open>i\<close> of a byte sequence: bit \<open>i mod 8\<close> of byte \<open>i div 8\<close>.\<close>

definition flip_block_bit :: "bytes \<Rightarrow> nat \<Rightarrow> bytes" where
  "flip_block_bit b i = b[i div 8 := (b ! (i div 8)) XOR push_bit (i mod 8) 1]"

section \<open>The storage files the commands read\<close>

text \<open>
  Modelled from the spec: package \<^verbatim>\<open>tsm1\<close> (the TSM reader, its block iterator and
  the tombstoner) is not among the repository's files. A reader exposes the keys of
  its index by ordinal (\<open>KeyCount\<close>, \<open>KeyAt\<close>) and a finite forward scan over its
  blocks, each read delivering the key, the time range, the value type, the stored
  checksum and the raw bytes, or an error. A tombstoner tells whether its file has
  tombstones and walks the entries in append order, calling the visitor on each; an
  error of the visitor aborts the walk and is returned, and so is the failure to
  read the file past the entries delivered (\<open>ts_err\<close>).
\<close>

record block_read =
  b_key :: bytes
  b_minTime :: int64
  b_maxTime :: int64
  b_typ :: byte
  b_checksum :: uint32
  b_buf :: bytes
  b_err :: "error option"

record TSMReader =
  index_keys :: "bytes list"
  blocks :: "block_read list"

definition KeyCount :: "TSMReader \<Rightarrow> nat" where
  "KeyCount r = length (index_keys r)"

definition KeyAt :: "TSMReader \<Rightarrow> nat \<Rightarrow> bytes" where
  "KeyAt r i = (if i < length (index_keys r) then index_keys r ! i else [])"

definition BlockIterator :: "TSMReader \<Rightarrow> block_read list" where
  "BlockIterator r = blocks r"

record Tombstone =
  t_Key :: bytes
  t_Min :: int64
  t_Max :: int64

record Tombstoner =
  ts_has :: bool
  ts_entries :: "Tombstone list"
  ts_err :: "error option"

definition HasTombstones :: "Tombstoner \<Rightarrow> bool" where
  "HasTombstones t = ts_has t"

fun Walk_entries ::
  "Tombstone list \<Rightarrow> (Tombstone \<Rightarrow> 's \<Rightarrow> error option \<times> 's) \<Rightarrow> 's \<Rightarrow> error option \<times> 's" where
  "Walk_entries [] fn s = (None, s)"
| "Walk_entries (t # ts) fn s =
     (case fn t s of
        (Some e, s') \<Rightarrow> (Some e, s')
      | (None, s') \<Rightarrow> Walk_entries ts fn s')"

definition Walk ::
  "Tombstoner \<Rightarrow> (Tombstone \<Rightarrow> 's \<Rightarrow> error option \<times> 's) \<Rightarrow> 's \<Rightarrow> error option \<times> 's" where
  "Walk t fn s =
     (case Walk_entries (ts_entries t) fn s of
        (Some e, s') \<Rightarrow> (Some e, s')
      | (None, s') \<Rightarrow> (ts_err t, s'))"

definition TSMFileExtension :: string where
  "TSMFileExtension = ''tsm''"

definition TombstoneFileExtension :: string where
  "TombstoneFileExtension = ''tombstone''"

text \<open>
  The file system a command runs on: the traversal of a root directory, the outcome
  of opening a path, and what the readers of package \<^verbatim>\<open>tsm1\<close> make of the file.
\<close>

record filesystem =
  walk :: "path \<Rightarrow> (path \<times> error option) list"
  os_OpenFile :: "path \<Rightarrow> error option"
  NewTSMReader :: "path \<Rightarrow> error + TSMReader"
  NewTombstoner :: "path \<Rightarrow> Tombstoner"

section \<open>verify-tsm\<close>

text \<open>
  What the command prints (\<^verbatim>\<open>cmd.PrintErrf\<close>), one constructor for each format string
  with its arguments. The elapsed time of the summary lines is left out.
\<close>

datatype tsm_msg =
    KeyNotValidUTF8 path nat
  | Healthy path
  | InvalidKeys nat nat
  | CouldNotGetChecksum path bytes nat error
  | ChecksumMismatch path uint32 uint32 bytes nat
  | BrokenBlocks nat nat

text \<open>
  The counters are Go \<^verbatim>\<open>int\<close>s that count keys and blocks read from files; they are
  natural numbers here. The deferred closers only release file handles when \<^verbatim>\<open>run\<close>
  returns, and the start time only feeds the elapsed time; neither is modelled.
\<close>

record verifyTSM =
  v_files :: "path list"
  v_f :: path

record verifyUTF8 = verifyTSM +
  u_totalErrors :: nat
  u_total :: nat

record verifyChecksums = verifyTSM +
  c_totalErrors :: nat
  c_total :: nat

definition loadFiles_visit :: "path \<Rightarrow> error option \<Rightarrow> path list \<Rightarrow> error option \<times> path list" where
  "loadFiles_visit p err files =
     (case err of
        Some e \<Rightarrow> (Some e, files)
      | None \<Rightarrow>
         if Ext p = ''.'' @ TSMFileExtension then (None, files @ [p]) else (None, files))"

definition loadFiles ::
  "filesystem \<Rightarrow> path \<Rightarrow> 'a verifyTSM_scheme \<Rightarrow> error option \<times> 'a verifyTSM_scheme" where
  "loadFiles w dataPath v =
     (case WalkDir (walk w dataPath) loadFiles_visit (v_files v) of
        (Some err, files) \<Rightarrow>
          (Some (fmt_Errorf ''could not load storage files (use -dir for custom storage root): '' err),
           v\<lparr>v_files := files\<rparr>)
      | (None, files) \<Rightarrow> (None, v\<lparr>v_files := files\<rparr>))"

definition verifyTSM_next :: "'a verifyTSM_scheme \<Rightarrow> bool \<times> 'a verifyTSM_scheme" where
  "verifyTSM_next v =
     (if length (v_files v) = 0 then (False, v)
      else (True, v\<lparr>v_f := hd (v_files v), v_files := tl (v_files v)\<rparr>))"

definition tsmReader :: "filesystem \<Rightarrow> path \<Rightarrow> error + TSMReader" where
  "tsmReader w f =
     (case os_OpenFile w f of
        Some err \<Rightarrow> Inl err
      | None \<Rightarrow>
         (case NewTSMReader w f of
            Inl err \<Rightarrow> Inl err
          | Inr reader \<Rightarrow> Inr reader))"

subsection \<open>Checking keys: \<^verbatim>\<open>verifyUTF8.run\<close>\<close>

function verifyUTF8_keys ::
  "bool \<Rightarrow> TSMReader \<Rightarrow> nat \<Rightarrow> nat \<Rightarrow> verifyUTF8 \<times> nat \<times> tsm_msg list
    \<Rightarrow> verifyUTF8 \<times> nat \<times> tsm_msg list" where
  "verifyUTF8_keys verbose_flag reader n i (v, fileErrors, out) =
     (if i < n then
        (let key = KeyAt reader i in
         if \<not> utf8_Valid key then
           verifyUTF8_keys verbose_flag reader n (i + 1)
             (v\<lparr>u_totalErrors := u_totalErrors v + 1\<rparr>, fileErrors + 1,
              if verbose_flag then out @ [KeyNotValidUTF8 (v_f v) i] else out)
         else verifyUTF8_keys verbose_flag reader n (i + 1) (v, fileErrors, out))
      else (v, fileErrors, out))"
  by pat_completeness auto
termination
  by (relation "measure (\<lambda>(verbose_flag, reader, n, i, s). n - i)") auto

declare verifyUTF8_keys.simps [simp del]

fun verifyUTF8_file ::
  "bool \<Rightarrow> TSMReader \<Rightarrow> verifyUTF8 \<times> tsm_msg list \<Rightarrow> verifyUTF8 \<times> tsm_msg list" where
  "verifyUTF8_file verbose_flag reader (v, out) =
     (let n = KeyCount reader;
          v1 = v\<lparr>u_total := u_total v + n\<rparr>
      in case verifyUTF8_keys verbose_flag reader n 0 (v1, 0, out) of
           (v2, fileErrors, out2) \<Rightarrow>
             (v2, if fileErrors = 0 \<and> verbose_flag then out2 @ [Healthy (v_f v2)] else out2))"

function verifyUTF8_loop ::
  "filesystem \<Rightarrow> bool \<Rightarrow> verifyUTF8 \<times> tsm_msg list \<Rightarrow> error option \<times> verifyUTF8 \<times> tsm_msg list" where
  "verifyUTF8_loop w verbose_flag (v, out) =
     (case verifyTSM_next v of
        (False, v0) \<Rightarrow> (None, v0, out)
      | (True, v0) \<Rightarrow>
         (case tsmReader w (v_f v0) of
            Inl err \<Rightarrow> (Some err, v0, out)
          | Inr reader \<Rightarrow>
              verifyUTF8_loop w verbose_flag (verifyUTF8_file verbose_flag reader (v0, out))))"
  by pat_completeness auto
termination
proof (relation "measure (\<lambda>(w, verbose_flag, s). length (v_files (fst s)))", goal_cases)
  case 1
  show ?case by simp
next
  case (2 w verbose_flag v out x v0 reader)
  have keys: "v_files (fst (verifyUTF8_keys a r n i s)) = v_files (fst s)" for a r n i s
  proof (induction a r n i s rule: verifyUTF8_keys.induct)
    case (1 a r n i v fe out)
    show ?case
    proof (cases "i < n")
      case True
      then show ?thesis using 1 by (subst verifyUTF8_keys.simps) (simp add: Let_def)
    next
      case False
      then show ?thesis by (subst verifyUTF8_keys.simps) simp
    qed
  qed
  have "v_files (fst (verifyUTF8_file verbose_flag reader (v0, out))) = v_files v0"
    using keys [of verbose_flag reader "KeyCount reader" 0 "(v0\<lparr>u_total := u_total v0 + KeyCount reader\<rparr>, 0, out)"]
    by (cases "verifyUTF8_keys verbose_flag reader (KeyCount reader) 0 (v0\<lparr>u_total := u_total v0 + KeyCount reader\<rparr>, 0, out)")
       (simp add: Let_def)
  moreover have "length (v_files v0) < length (v_files v)"
    using 2 by (auto simp add: verifyTSM_next_def split: if_splits)
  ultimately show ?case by simp
qed

declare verifyUTF8_loop.simps [simp del]

definition verifyUTF8_run ::
  "filesystem \<Rightarrow> verifyUTF8 \<Rightarrow> path \<Rightarrow> bool \<Rightarrow> error option \<times> tsm_msg list" where
  "verifyUTF8_run w v dataPath verbose_flag =
     (case loadFiles w dataPath v of
        (Some err, v0) \<Rightarrow> (Some err, [])
      | (None, v0) \<Rightarrow>
         (case verifyUTF8_loop w verbose_flag (v0, []) of
            (Some err, v1, out) \<Rightarrow> (Some err, out)
          | (None, v1, out) \<Rightarrow>
             (let out1 = out @ [InvalidKeys (u_totalErrors v1) (u_total v1)]
              in if u_totalErrors v1 > 0 then (Some (errors_New ''check-utf8: failed''), out1)
                 else (None, out1))))"

subsection \<open>Checking block checksums: \<^verbatim>\<open>verifyChecksums.run\<close>\<close>

fun verifyChecksums_blocks ::
  "bool \<Rightarrow> block_read list \<Rightarrow> nat \<Rightarrow> verifyChecksums \<times> nat \<times> tsm_msg list
    \<Rightarrow> verifyChecksums \<times> nat \<times> tsm_msg list" where
  "verifyChecksums_blocks verbose_flag [] count (v, fileErrors, out) = (v, fileErrors, out)"
| "verifyChecksums_blocks verbose_flag (b # blockItr) count (v, fileErrors, out) =
     (let v1 = v\<lparr>c_total := c_total v + 1\<rparr> in
      case b_err b of
        Some err \<Rightarrow>
          verifyChecksums_blocks verbose_flag blockItr (count + 1)
            (v1\<lparr>c_totalErrors := c_totalErrors v1 + 1\<rparr>, fileErrors + 1,
             if verbose_flag then out @ [CouldNotGetChecksum (v_f v1) (b_key b) count err]
             else out)
      | None \<Rightarrow>
          (let expected = ChecksumIEEE (b_buf b) in
           if b_checksum b \<noteq> expected then
             verifyChecksums_blocks verbose_flag blockItr (count + 1)
               (v1\<lparr>c_totalErrors := c_totalErrors v1 + 1\<rparr>, fileErrors + 1,
                if verbose_flag
                then out @ [ChecksumMismatch (v_f v1) (b_checksum b) expected (b_key b) count]
                else out)
           else verifyChecksums_blocks verbose_flag blockItr (count + 1) (v1, fileErrors, out)))"

fun verifyChecksums_file ::
  "bool \<Rightarrow> TSMReader \<Rightarrow> verifyChecksums \<times> tsm_msg list \<Rightarrow> verifyChecksums \<times> tsm_msg list" where
  "verifyChecksums_file verbose_flag reader (v, out) =
     (let blockItr = BlockIterator reader
      in case verifyChecksums_blocks verbose_flag blockItr 0 (v, 0, out) of
           (v2, fileErrors, out2) \<Rightarrow>
             (v2, if fileErrors = 0 \<and> verbose_flag then out2 @ [Healthy (v_f v2)] else out2))"

function verifyChecksums_loop ::
  "filesystem \<Rightarrow> bool \<Rightarrow> verifyChecksums \<times> tsm_msg list
    \<Rightarrow> error option \<times> verifyChecksums \<times> tsm_msg list" where
  "verifyChecksums_loop w verbose_flag (v, out) =
     (case verifyTSM_next v of
        (False, v0) \<Rightarrow> (None, v0, out)
      | (True, v0) \<Rightarrow>
         (case tsmReader w (v_f v0) of
            Inl err \<Rightarrow> (Some err, v0, out)
          | Inr reader \<Rightarrow>
              verifyChecksums_loop w verbose_flag (verifyChecksums_file verbose_flag reader (v0, out))))"
  by pat_completeness auto
termination
proof (relation "measure (\<lambda>(w, verbose_flag, s). length (v_files (fst s)))", goal_cases)
  case 1
  show ?case by simp
next
  case (2 w verbose_flag v out x v0 reader)
  have blocks: "v_files (fst (verifyChecksums_blocks a bs n s)) = v_files (fst s)" for a bs n s
    by (induction a bs n s rule: verifyChecksums_blocks.induct)
       (simp_all add: Let_def split: option.splits)
  have "v_files (fst (verifyChecksums_file verbose_flag reader (v0, out))) = v_files v0"
    using blocks [of verbose_flag "BlockIterator reader" 0 "(v0, 0, out)"]
    by (cases "verifyChecksums_blocks verbose_flag (BlockIterator reader) 0 (v0, 0, out)")
       (simp add: Let_def)
  moreover have "length (v_files v0) < length (v_files v)"
    using 2 by (auto simp add: verifyTSM_next_def split: if_splits)
  ultimately show ?case by simp
qed

declare verifyChecksums_loop.simps [simp del]

definition verifyChecksums_run ::
  "filesystem \<Rightarrow> verifyChecksums \<Rightarrow> path \<Rightarrow> bool \<Rightarrow> error option \<times> tsm_msg list" where
  "verifyChecksums_run w v dataPath verbose_flag =
     (case loadFiles w dataPath v of
        (Some err, v0) \<Rightarrow> (Some err, [])
      | (None, v0) \<Rightarrow>
         (case verifyChecksums_loop w verbose_flag (v0, []) of
            (Some err, v1, out) \<Rightarrow> (Some err, out)
          | (None, v1, out) \<Rightarrow>
             (None, out @ [BrokenBlocks (c_totalErrors v1) (c_total v1)])))"

text \<open>
  The command: \<^verbatim>\<open>RunE\<close> of \<^verbatim>\<open>NewTSMVerifyCommand\<close> picks the runner by the flag
  \<^verbatim>\<open>--check-utf8\<close>, a fresh zero value of its struct, and returns the runner's error.
\<close>

definition verify_tsm :: "filesystem \<Rightarrow> path \<Rightarrow> bool \<Rightarrow> bool \<Rightarrow> error option \<times> tsm_msg list" where
  "verify_tsm w dir checkUTF8 verbose_flag =
     (if checkUTF8
      then verifyUTF8_run w \<lparr>v_files = [], v_f = [], u_totalErrors = 0, u_total = 0\<rparr> dir verbose_flag
      else verifyChecksums_run w \<lparr>v_files = [], v_f = [], c_totalErrors = 0, c_total = 0\<rparr> dir
             verbose_flag)"

section \<open>verify-tombstone\<close>

text \<open>
  What the command prints (\<^verbatim>\<open>cmd.Printf\<close>), one constructor for each format string;
  the elapsed time of the completion line is left out. \<open>KeyMinMaxTime\<close> is the entry
  line with the bounds converted by \<^verbatim>\<open>time.Unix\<close>. The entry counter is an \<^verbatim>\<open>int64\<close>
  that counts entries read from one file; it is a natural number here.
\<close>

datatype tombstone_msg =
    Verifying path
  | HasNoTombstoneEntries path
  | VerifiedEntries nat
  | KeyMinMax bytes int64 int64
  | KeyMinMaxTime bytes int64 int64
  | FailedToWalk path error nat
  | Completed path nat
  | NoTombstoneFilesFound

definition quiet :: nat where
  "quiet = 0"

definition verbose :: nat where
  "verbose = 1"

definition veryVerbose :: nat where
  "veryVerbose = 2"

record verifier =
  tv_path :: path
  tv_verbosity :: nat
  tv_files :: "path list"
  tv_f :: path

definition verifier_loadFiles_visit ::
  "path \<Rightarrow> error option \<Rightarrow> path list \<Rightarrow> error option \<times> path list" where
  "verifier_loadFiles_visit p err files =
     (case err of
        Some e \<Rightarrow> (Some e, files)
      | None \<Rightarrow>
         if Ext p = ''.'' @ TombstoneFileExtension then (None, files @ [p]) else (None, files))"

definition verifier_loadFiles :: "filesystem \<Rightarrow> verifier \<Rightarrow> error option \<times> verifier" where
  "verifier_loadFiles w v =
     (case WalkDir (walk w (tv_path v)) verifier_loadFiles_visit (tv_files v) of
        (err, files) \<Rightarrow> (err, v\<lparr>tv_files := files\<rparr>))"

definition verifier_next :: "verifier \<Rightarrow> bool \<times> verifier" where
  "verifier_next v =
     (if length (tv_files v) = 0 then (False, v)
      else (True, v\<lparr>tv_f := hd (tv_files v), tv_files := tl (tv_files v)\<rparr>))"

definition verifier_visit ::
  "nat \<Rightarrow> Tombstone \<Rightarrow> nat \<times> tombstone_msg list \<Rightarrow> error option \<times> nat \<times> tombstone_msg list" where
  "verifier_visit verbosity t s =
     (case s of (totalEntries, out) \<Rightarrow>
        (let totalEntries1 = totalEntries + 1 in
         if verbosity > quiet \<and> totalEntries1 mod (10 * 1000000) = 0
         then (None, totalEntries1, out @ [VerifiedEntries totalEntries1])
         else if verbosity > verbose
         then (None, totalEntries1,
               out @ [if verbosity > veryVerbose
                      then KeyMinMaxTime (t_Key t) (t_Min t) (t_Max t)
                      else KeyMinMax (t_Key t) (t_Min t) (t_Max t)])
         else (None, totalEntries1, out)))"

function verifier_loop ::
  "filesystem \<Rightarrow> verifier \<times> bool \<times> bool \<times> tombstone_msg list
    \<Rightarrow> verifier \<times> bool \<times> bool \<times> tombstone_msg list" where
  "verifier_loop w (v, failed, foundTombstoneFile, out) =
     (case verifier_next v of
        (False, v0) \<Rightarrow> (v0, failed, foundTombstoneFile, out)
      | (True, v0) \<Rightarrow>
         (let out1 = (if tv_verbosity v0 > quiet then out @ [Verifying (tv_f v0)] else out);
              tombstoner = NewTombstoner w (tv_f v0)
          in if \<not> HasTombstones tombstoner
             then verifier_loop w (v0, failed, True, out1 @ [HasNoTombstoneEntries (tv_f v0)])
             else
               (case Walk tombstoner (verifier_visit (tv_verbosity v0)) (0, out1) of
                  (Some err, totalEntries, out2) \<Rightarrow>
                    verifier_loop w
                      (v0, True, True, out2 @ [FailedToWalk (tv_f v0) err totalEntries])
                | (None, totalEntries, out2) \<Rightarrow>
                    verifier_loop w
                      (v0, failed, True, out2 @ [Completed (tv_f v0) totalEntries]))))"
  by pat_completeness auto
termination
  by (relation "measure (\<lambda>(w, v, s). length (tv_files v))")
     (auto simp add: verifier_next_def split: if_splits)

declare verifier_loop.simps [simp del]

definition verifier_run :: "filesystem \<Rightarrow> verifier \<Rightarrow> error option \<times> tombstone_msg list" where
  "verifier_run w v =
     (case verifier_loadFiles w v of
        (Some err, v0) \<Rightarrow> (Some err, [])
      | (None, v0) \<Rightarrow>
         (case verifier_loop w (v0, False, False, []) of
            (v1, failed, foundTombstoneFile, out) \<Rightarrow>
              if failed then (Some (errors_New ''failed tombstone verification''), out)
              else if \<not> foundTombstoneFile then (None, out @ [NoTombstoneFilesFound])
              else (None, out)))"

text \<open>
  The command: \<^verbatim>\<open>RunE\<close> of \<^verbatim>\<open>NewVerifyTombstoneCommand\<close> builds the runner from the
  flags \<^verbatim>\<open>--engine-path\<close>, \<^verbatim>\<open>-v\<close> and \<^verbatim>\<open>--vv\<close>.
\<close>

definition flags_verbosity :: "bool \<Rightarrow> bool \<Rightarrow> nat" where
  "flags_verbosity v_flag vv_flag =
     (if vv_flag then veryVerbose else if v_flag then verbose else quiet)"

definition verify_tombstone ::
  "filesystem \<Rightarrow> path \<Rightarrow> bool \<Rightarrow> bool \<Rightarrow> error option \<times> tombstone_msg list" where
  "verify_tombstone w dir v_flag vv_flag =
     verifier_run w
       \<lparr>tv_path = dir, tv_verbosity = flags_verbosity v_flag vv_flag, tv_files = [], tv_f = []\<rparr>"

section \<open>The engine's configuration\<close>

text \<open>
  A \<^verbatim>\<open>time.Duration\<close> is an \<^verbatim>\<open>int64\<close> count of nanoseconds, with the standard
  library's units. The configurations of the other packages (\<^verbatim>\<open>tsdb\<close>, \<^verbatim>\<open>retention\<close>,
  \<^verbatim>\<open>precreator\<close>) are not among the repository's files: \<open>NewConfig\<close> takes what their
  constructors return as parameters.
\<close>

type_synonym Duration = int64

definition Nanosecond :: Duration where
  "Nanosecond = 1"

definition Microsecond :: Duration where
  "Microsecond = 1000 * Nanosecond"

definition Millisecond :: Duration where
  "Millisecond = 1000 * Microsecond"

definition Second :: Duration where
  "Second = 1000 * Millisecond"

definition DefaultWriteTimeout :: Duration where
  "DefaultWriteTimeout = 10 * Second"

record ('d, 'r, 'p) Config =
  Data :: 'd
  WriteTimeout :: Duration
  RetentionService :: 'r
  PrecreatorConfig :: 'p

definition NewConfig :: "'d \<Rightarrow> 'r \<Rightarrow> 'p \<Rightarrow> ('d, 'r, 'p) Config" where
  "NewConfig tsdb_NewConfig retention_NewConfig precreator_NewConfig =
     \<lparr>Data = tsdb_NewConfig,
      WriteTimeout = DefaultWriteTimeout,
      RetentionService = retention_NewConfig,
      PrecreatorConfig = precreator_NewConfig\<rparr>"

section \<open>Vocabulary of the statements\<close>

text \<open>
  What the claims speak of, in their own words: the files a traversal discovers,
  whether the traversal went through without an error, and its first error otherwise;
  a block that counts as broken (its read failed, or the CRC-32 recomputed over its raw
  bytes differs from the stored checksum); the indices of a file's keys that are not
  valid UTF-8; a tombstone file whose walk fails; and the lines a run prints for a
  block, an entry and a file, built from the format strings of the source. The lemmas
  below show that the loops of the source compute exactly these.
\<close>

definition broken_block :: "block_read \<Rightarrow> bool" where
  "broken_block b = (b_err b \<noteq> None \<or> b_checksum b \<noteq> ChecksumIEEE (b_buf b))"

definition block_report :: "path \<Rightarrow> nat \<Rightarrow> block_read \<Rightarrow> tsm_msg list" where
  "block_report f count b =
     (case b_err b of
        Some err \<Rightarrow> [CouldNotGetChecksum f (b_key b) count err]
      | None \<Rightarrow>
         if b_checksum b \<noteq> ChecksumIEEE (b_buf b)
         then [ChecksumMismatch f (b_checksum b) (ChecksumIEEE (b_buf b)) (b_key b) count]
         else [])"

fun blocks_report :: "path \<Rightarrow> nat \<Rightarrow> block_read list \<Rightarrow> tsm_msg list" where
  "blocks_report f count [] = []"
| "blocks_report f count (b # bs) = block_report f count b @ blocks_report f (Suc count) bs"

definition checksums_file_report :: "path \<Rightarrow> TSMReader \<Rightarrow> tsm_msg list" where
  "checksums_file_report p r =
     blocks_report p 0 (blocks r) @ (if filter broken_block (blocks r) = [] then [Healthy p] else [])"

definition tsm_files :: "filesystem \<Rightarrow> path \<Rightarrow> path list" where
  "tsm_files w dataPath = filter (\<lambda>p. Ext p = ''.tsm'') (map fst (walk w dataPath))"

definition walk_ok :: "filesystem \<Rightarrow> path \<Rightarrow> bool" where
  "walk_ok w dataPath = list_all (\<lambda>entry. snd entry = None) (walk w dataPath)"

definition invalid_key_indices :: "TSMReader \<Rightarrow> nat list" where
  "invalid_key_indices r = filter (\<lambda>i. \<not> utf8_Valid (KeyAt r i)) [0..<KeyCount r]"

definition utf8_file_report :: "path \<Rightarrow> TSMReader \<Rightarrow> tsm_msg list" where
  "utf8_file_report p r =
     map (KeyNotValidUTF8 p) (invalid_key_indices r)
     @ (if invalid_key_indices r = [] then [Healthy p] else [])"

definition all_keys :: "filesystem \<Rightarrow> path \<Rightarrow> bytes list" where
  "all_keys w dataPath =
     concat (map (\<lambda>p. case NewTSMReader w p of Inl e \<Rightarrow> [] | Inr r \<Rightarrow> index_keys r)
       (tsm_files w dataPath))"

fun first_error :: "(path \<times> error option) list \<Rightarrow> error option" where
  "first_error [] = None"
| "first_error ((p, None) # entries) = first_error entries"
| "first_error ((p, Some e) # entries) = Some e"

definition walk_error :: "filesystem \<Rightarrow> path \<Rightarrow> error option" where
  "walk_error w dir = first_error (walk w dir)"

definition tombstone_files :: "filesystem \<Rightarrow> path \<Rightarrow> path list" where
  "tombstone_files w dir = filter (\<lambda>p. Ext p = ''.tombstone'') (map fst (walk w dir))"

definition walk_fails :: "filesystem \<Rightarrow> path \<Rightarrow> bool" where
  "walk_fails w p = (HasTombstones (NewTombstoner w p) \<and> ts_err (NewTombstoner w p) \<noteq> None)"

definition entry_report :: "nat \<Rightarrow> nat \<Rightarrow> Tombstone \<Rightarrow> tombstone_msg list" where
  "entry_report verbosity n t =
     (if verbosity > quiet \<and> (n + 1) mod 10000000 = 0 then [VerifiedEntries (n + 1)]
      else if verbosity > verbose
      then [if verbosity > veryVerbose
            then KeyMinMaxTime (t_Key t) (t_Min t) (t_Max t)
            else KeyMinMax (t_Key t) (t_Min t) (t_Max t)]
      else [])"

fun entries_report :: "nat \<Rightarrow> nat \<Rightarrow> Tombstone list \<Rightarrow> tombstone_msg list" where
  "entries_report verbosity n [] = []"
| "entries_report verbosity n (t # ts) =
     entry_report verbosity n t @ entries_report verbosity (Suc n) ts"

definition tombstone_file_report :: "nat \<Rightarrow> filesystem \<Rightarrow> path \<Rightarrow> tombstone_msg list" where
  "tombstone_file_report verbosity w p =
     (if verbosity > quiet then [Verifying p] else [])
     @ (if \<not> HasTombstones (NewTombstoner w p) then [HasNoTombstoneEntries p]
        else entries_report verbosity 0 (ts_entries (NewTombstoner w p))
          @ [case ts_err (NewTombstoner w p) of
               Some e \<Rightarrow> FailedToWalk p e (length (ts_entries (NewTombstoner w p)))
             | None \<Rightarrow> Completed p (length (ts_entries (NewTombstoner w p)))])"

text \<open>One round of the checksum's update loop: the register after folding in a byte.\<close>

definition crc_byte :: "uint32 \<Rightarrow> byte \<Rightarrow> uint32" where
  "crc_byte crc v = simpleMakeTable (ucast crc XOR v) XOR drop_bit 8 crc"

section \<open>Example files\<close>

text \<open>
  Concrete inputs for the closed theorems: a key, a block whose stored checksum is the
  CRC-32 of its one byte, the same block with the checksum corrupted and with one bit of
  the byte flipped, and directories holding them.
\<close>

definition cpu_key :: bytes where
  "cpu_key = [0x63, 0x70, 0x75]"

definition corrupted_block :: block_read where
  "corrupted_block =
     \<lparr>b_key = cpu_key, b_minTime = 1, b_maxTime = 2, b_typ = 0,
      b_checksum = 0xE8B7BE42, b_buf = [0x61], b_err = None\<rparr>"

definition sound_block :: block_read where
  "sound_block =
     \<lparr>b_key = cpu_key, b_minTime = 3, b_maxTime = 4, b_typ = 0,
      b_checksum = 0xE8B7BE43, b_buf = [0x61], b_err = None\<rparr>"

definition no_tombstones :: Tombstoner where
  "no_tombstones = \<lparr>ts_has = False, ts_entries = [], ts_err = None\<rparr>"

definition fs_corrupted :: filesystem where
  "fs_corrupted =
     \<lparr>walk = (\<lambda>root. [(''engine'', None), (''engine/000000001-000000001.tsm'', None)]),
      os_OpenFile = (\<lambda>p. None),
      NewTSMReader = (\<lambda>p. Inr \<lparr>index_keys = [cpu_key], blocks = [corrupted_block]\<rparr>),
      NewTombstoner = (\<lambda>p. no_tombstones)\<rparr>"

definition fs_two_files :: filesystem where
  "fs_two_files =
     \<lparr>walk = (\<lambda>root. [(''engine'', None), (''engine/1.tsm'', None), (''engine/fields.idx'', None),
                       (''engine/2.tsm'', None)]),
      os_OpenFile = (\<lambda>p. None),
      NewTSMReader = (\<lambda>p.
        if p = ''engine/1.tsm''
        then Inr \<lparr>index_keys = [cpu_key], blocks = [sound_block, corrupted_block]\<rparr>
        else Inr \<lparr>index_keys = [cpu_key, [0xFF]], blocks = [sound_block]\<rparr>),
      NewTombstoner = (\<lambda>p. no_tombstones)\<rparr>"

definition flipped_block :: block_read where
  "flipped_block =
     \<lparr>b_key = cpu_key, b_minTime = 3, b_maxTime = 4, b_typ = 0,
      b_checksum = 0xE8B7BE43, b_buf = [0x60], b_err = None\<rparr>"

definition fs_unreadable :: filesystem where
  "fs_unreadable =
     \<lparr>walk = (\<lambda>root. [(''engine'', None), (''engine/1.tsm'', None), (''engine/2.tsm'', None),
                       (''engine/3.tsm'', None)]),
      os_OpenFile = (\<lambda>p. if p = ''engine/2.tsm'' then Some (errors_New ''permission denied'')
                          else None),
      NewTSMReader = (\<lambda>p. Inr \<lparr>index_keys = [cpu_key], blocks = [corrupted_block]\<rparr>),
      NewTombstoner = (\<lambda>p. no_tombstones)\<rparr>"

definition fs_missing :: filesystem where
  "fs_missing =
     \<lparr>walk = (\<lambda>root. [(root, Some (errors_New ''no such file or directory''))]),
      os_OpenFile = (\<lambda>p. None),
      NewTSMReader = (\<lambda>p. Inl (errors_New ''no such file or directory'')),
      NewTombstoner = (\<lambda>p. no_tombstones)\<rparr>"

definition cpu_tombstone :: Tombstone where
  "cpu_tombstone = \<lparr>t_Key = cpu_key, t_Min = 1, t_Max = 1\<rparr>"

definition fs_tombstones :: filesystem where
  "fs_tombstones =
     \<lparr>walk = (\<lambda>root. [(''engine'', None), (''engine/1.tsm'', None), (''engine/1.tombstone'', None),
                       (''engine/2.tombstone'', None)]),
      os_OpenFile = (\<lambda>p. None),
      NewTSMReader = (\<lambda>p. Inr \<lparr>index_keys = [cpu_key], blocks = [sound_block]\<rparr>),
      NewTombstoner = (\<lambda>p.
        if p = ''engine/1.tombstone'' then no_tombstones
        else \<lparr>ts_has = True, ts_entries = [cpu_tombstone, cpu_tombstone], ts_err = None\<rparr>)\<rparr>"

definition fs_torn_tombstone :: filesystem where
  "fs_torn_tombstone =
     \<lparr>walk = (\<lambda>root. [(''engine'', None), (''engine/1.tombstone'', None),
                       (''engine/2.tombstone'', None)]),
      os_OpenFile = (\<lambda>p. None),
      NewTSMReader = (\<lambda>p. Inr \<lparr>index_keys = [cpu_key], blocks = [sound_block]\<rparr>),
      NewTombstoner = (\<lambda>p.
        if p = ''engine/1.tombstone''
        then \<lparr>ts_has = True, ts_entries = [cpu_tombstone], ts_err = Some (errors_New ''unexpected EOF'')\<rparr>
        else \<lparr>ts_has = True, ts_entries = [cpu_tombstone, cpu_tombstone], ts_err = None\<rparr>)\<rparr>"

definition fs_no_tombstones :: filesystem where
  "fs_no_tombstones =
     \<lparr>walk = (\<lambda>root. [(''engine'', None), (''engine/1.tsm'', None)]),
      os_OpenFile = (\<lambda>p. None),
      NewTSMReader = (\<lambda>p. Inr \<lparr>index_keys = [cpu_key], blocks = [sound_block]\<rparr>),
      NewTombstoner = (\<lambda>p. no_tombstones)\<rparr>"

definition fs_unparsable :: filesystem where
  "fs_unparsable =
     \<lparr>walk = (\<lambda>root. [(''engine'', None), (''engine/1.tsm'', None), (''engine/2.tsm'', None),
                       (''engine/3.tsm'', None)]),
      os_OpenFile = (\<lambda>p. None),
      NewTSMReader = (\<lambda>p. if p = ''engine/2.tsm'' then Inl (errors_New ''init: error reading magic number of file'')
                           else Inr \<lparr>index_keys = [cpu_key], blocks = [corrupted_block]\<rparr>),
      NewTombstoner = (\<lambda>p. no_tombstones)\<rparr>"

definition fs_partial :: filesystem where
  "fs_partial =
     \<lparr>walk = (\<lambda>root. [(''engine'', None), (''engine/1.tombstone'', None),
                       (''engine/data'', Some (errors_New ''permission denied'')),
                       (''engine/2.tombstone'', None)]),
      os_OpenFile = (\<lambda>p. None),
      NewTSMReader = (\<lambda>p. Inr \<lparr>index_keys = [cpu_key], blocks = [sound_block]\<rparr>),
      NewTombstoner = (\<lambda>p. \<lparr>ts_has = True, ts_entries = [cpu_tombstone], ts_err = None\<rparr>)\<rparr>"

section \<open>The library models on known values\<close>

lemma utf8_Valid_examples:
  "utf8_Valid [0x63, 0x70, 0x75]"
  "utf8_Valid [0xE2, 0x82, 0xAC]"
  "utf8_Valid [0xF0, 0x9F, 0x98, 0x80]"
  "\<not> utf8_Valid [0xFF]"
  "\<not> utf8_Valid [0xC0, 0x80]"
  "\<not> utf8_Valid [0xED, 0xA0, 0x80]"
  "\<not> utf8_Valid [0xE2, 0x82]"
  by (simp_all add: first_def)

lemma Ext_examples:
  "Ext ''engine/data/000000001-000000001.tsm'' = ''.tsm''"
  "Ext ''engine/data/000000001-000000001.tombstone'' = ''.tombstone''"
  "Ext ''engine.d/tsm'' = []"
  by (simp_all add: Ext_def)

lemma ChecksumIEEE_ab: "ChecksumIEEE [0x61, 0x62] = 0x9E83486D"
  by code_simp

section \<open>CRC-32 detects every change confined to one byte\<close>

text \<open>
  One shift of the register is linear over exclusive or and injective (the polynomial
  has its top bit set, so the bit shifted out can be read off the result). The table
  lookup of the update is therefore eight shifts of the register with the byte folded
  in, which is injective in the register and in the byte.
\<close>

lemma crc_shift_alt: "crc_shift c = drop_bit 1 c XOR (if bit c 0 then IEEE else 0)"
  unfolding crc_shift_def
  by (simp add: and_one_eq mod_2_eq_odd bit_0 one_and_eq)

lemma crc_shift_xor: "crc_shift (a XOR b) = crc_shift a XOR crc_shift b"
  unfolding crc_shift_alt
  by (cases "bit a 0"; cases "bit b 0") (simp_all add: bit_xor_iff ac_simps)

lemma crc_shifts_xor: "crc_shifts n (a XOR b) = crc_shifts n a XOR crc_shifts n b"
  by (induction n arbitrary: a b) (simp_all add: crc_shift_xor)

lemma crc_shifts_low_zero: "take_bit n x = 0 \<Longrightarrow> crc_shifts n x = drop_bit n x"
proof (induction n arbitrary: x)
  case 0
  then show ?case by simp
next
  case (Suc n)
  have b0: "\<not> bit x 0"
  proof
    assume "bit x 0"
    then have "bit (take_bit (Suc n) x) 0" by (simp add: bit_take_bit_iff)
    then show False using Suc.prems by simp
  qed
  have "take_bit n (drop_bit 1 x) = 0"
    using Suc.prems by (metis take_bit_drop_bit drop_bit_of_0 plus_1_eq_Suc add.commute)
  then show ?case using b0 Suc.IH[of "drop_bit 1 x"]
    by (simp add: crc_shift_alt drop_bit_drop_bit)
qed

lemma crc_byte_shifts: "crc_byte crc v = crc_shifts 8 (crc XOR ucast v)"
proof -
  let ?lo = "ucast (ucast crc XOR v :: byte) :: uint32"
  let ?hi = "push_bit 8 (drop_bit 8 crc) :: uint32"
  have split: "crc XOR ucast v = ?lo XOR ?hi"
    by (rule bit_word_eqI) (auto simp add: bit_simps)
  have hi0: "take_bit 8 ?hi = 0"
    by (rule bit_word_eqI) (auto simp add: bit_simps)
  have "drop_bit 8 ?hi = drop_bit 8 crc"
    by (rule bit_word_eqI) (auto simp add: bit_simps dest: bit_imp_le_length)
  then have "crc_shifts 8 ?hi = drop_bit 8 crc"
    using crc_shifts_low_zero [OF hi0] by simp
  then show ?thesis
    by (simp add: crc_byte_def simpleMakeTable_def split crc_shifts_xor)
qed

lemma xor_cancel_right: "(a :: uint32) XOR c = b XOR c \<Longrightarrow> a = b"
proof -
  assume "a XOR c = b XOR c"
  then have "(a XOR c) XOR c = (b XOR c) XOR c" by simp
  then show "a = b" by (simp add: xor.assoc)
qed

lemma xor_cancel_left: "(c :: uint32) XOR a = c XOR b \<Longrightarrow> a = b"
  using xor_cancel_right [of a c b] by (simp add: xor.commute)

lemma crc_shift_inj: "crc_shift a = crc_shift b \<Longrightarrow> a = b"
proof -
  assume eq: "crc_shift a = crc_shift b"
  have top: "bit (crc_shift c) 31 = bit c 0" for c
    by (auto simp add: crc_shift_alt IEEE_def bit_simps dest: bit_imp_le_length)
  have b0: "bit a 0 = bit b 0"
    using eq top by metis
  then have "drop_bit 1 a XOR (if bit a 0 then IEEE else 0) = drop_bit 1 b XOR (if bit a 0 then IEEE else 0)"
    using eq by (simp add: crc_shift_alt)
  then have d: "drop_bit 1 a = drop_bit 1 b"
    by (rule xor_cancel_right)
  show "a = b"
  proof (rule bit_word_eqI)
    fix n assume "n < LENGTH(32)"
    show "bit a n = bit b n"
    proof (cases n)
      case 0
      then show ?thesis using b0 by simp
    next
      case (Suc m)
      have "bit (drop_bit 1 a) m = bit (drop_bit 1 b) m" using d by simp
      then show ?thesis using Suc by (simp add: bit_drop_bit_eq)
    qed
  qed
qed

lemma crc_shifts_inj: "crc_shifts n a = crc_shifts n b \<Longrightarrow> a = b"
  by (induction n arbitrary: a b) (auto dest: crc_shift_inj)

lemma crc_byte_inj_crc: "crc_byte a v = crc_byte b v \<Longrightarrow> a = b"
proof -
  assume "crc_byte a v = crc_byte b v"
  then have "crc_shifts 8 (a XOR ucast v) = crc_shifts 8 (b XOR ucast v)"
    by (simp add: crc_byte_shifts)
  then have "a XOR ucast v = b XOR ucast v" by (rule crc_shifts_inj)
  then show "a = b" by (rule xor_cancel_right)
qed

lemma ucast_byte_inj: "(ucast (v :: byte) :: uint32) = ucast w \<Longrightarrow> v = w"
proof (rule bit_word_eqI)
  fix n assume eq: "(ucast v :: uint32) = ucast w" and n: "n < LENGTH(8)"
  from eq have "bit (ucast v :: uint32) n = bit (ucast w :: uint32) n" by simp
  then show "bit v n = bit w n" using n by (simp add: bit_simps)
qed

lemma crc_byte_inj_byte: "crc_byte c v = crc_byte c w \<Longrightarrow> v = w"
proof -
  assume "crc_byte c v = crc_byte c w"
  then have "crc_shifts 8 (c XOR ucast v) = crc_shifts 8 (c XOR ucast w)"
    by (simp add: crc_byte_shifts)
  then have "c XOR ucast v = c XOR ucast w" by (rule crc_shifts_inj)
  then have "(ucast v :: uint32) = ucast w" by (rule xor_cancel_left)
  then show "v = w" by (rule ucast_byte_inj)
qed

lemma simpleUpdate_loop_inj:
  "simpleUpdate_loop a p = simpleUpdate_loop b p \<Longrightarrow> a = b"
  by (induction p arbitrary: a b) (auto simp flip: crc_byte_def dest: crc_byte_inj_crc)

lemma simpleUpdate_loop_append:
  "simpleUpdate_loop c (xs @ ys) = simpleUpdate_loop (simpleUpdate_loop c xs) ys"
  by (induction xs arbitrary: c) simp_all

lemma ChecksumIEEE_byte_change:
  assumes "v \<noteq> w"
  shows "ChecksumIEEE (xs @ v # ys) \<noteq> ChecksumIEEE (xs @ w # ys)"
proof
  assume "ChecksumIEEE (xs @ v # ys) = ChecksumIEEE (xs @ w # ys)"
  then have "simpleUpdate_loop (NOT 0) (xs @ v # ys) = simpleUpdate_loop (NOT 0) (xs @ w # ys)"
    by (simp add: ChecksumIEEE_def simpleUpdate_def)
  then have "crc_byte (simpleUpdate_loop (NOT 0) xs) v = crc_byte (simpleUpdate_loop (NOT 0) xs) w"
    by (simp add: simpleUpdate_loop_append crc_byte_def) (metis simpleUpdate_loop_inj)
  then show False using assms crc_byte_inj_byte by blast
qed

lemma flip_block_bit_split:
  assumes "i < 8 * length b"
  shows "b = take (i div 8) b @ (b ! (i div 8)) # drop (Suc (i div 8)) b"
    and "flip_block_bit b i = take (i div 8) b @ ((b ! (i div 8)) XOR push_bit (i mod 8) 1) # drop (Suc (i div 8)) b"
proof -
  have k: "i div 8 < length b" using assms by auto
  show "b = take (i div 8) b @ (b ! (i div 8)) # drop (Suc (i div 8)) b"
    using k by (simp add: id_take_nth_drop)
  show "flip_block_bit b i = take (i div 8) b @ ((b ! (i div 8)) XOR push_bit (i mod 8) 1) # drop (Suc (i div 8)) b"
    using k by (simp add: flip_block_bit_def upd_conv_take_nth_drop)
qed

lemma flipped_byte_differs: "(x :: byte) XOR push_bit (i mod 8) 1 \<noteq> x"
proof
  assume "x XOR push_bit (i mod 8) 1 = x"
  then have "bit (x XOR push_bit (i mod 8) 1) (i mod 8) = bit x (i mod 8)" by simp
  then show False by (simp add: bit_simps)
qed

lemma ChecksumIEEE_flip_block_bit:
  assumes "i < 8 * length b"
  shows "ChecksumIEEE (flip_block_bit b i) \<noteq> ChecksumIEEE b"
proof -
  note s = flip_block_bit_split [OF assms]
  have "ChecksumIEEE (take (i div 8) b @ ((b ! (i div 8)) XOR push_bit (i mod 8) 1) # drop (Suc (i div 8)) b)
      \<noteq> ChecksumIEEE (take (i div 8) b @ (b ! (i div 8)) # drop (Suc (i div 8)) b)"
    by (rule ChecksumIEEE_byte_change) (rule flipped_byte_differs)
  then show ?thesis using s by simp
qed

section \<open>The directory traversal\<close>

lemma WalkDir_loadFiles_ok:
  "list_all (\<lambda>entry. snd entry = None) entries \<Longrightarrow>
   WalkDir entries loadFiles_visit files =
     (None, files @ filter (\<lambda>p. Ext p = ''.tsm'') (map fst entries))"
  by (induction entries arbitrary: files)
     (auto simp add: loadFiles_visit_def TSMFileExtension_def)

lemma WalkDir_loadFiles_failed:
  "\<not> list_all (\<lambda>entry. snd entry = None) entries \<Longrightarrow>
   \<exists>e files'. WalkDir entries loadFiles_visit files = (Some e, files')"
  by (induction entries arbitrary: files)
     (auto simp add: loadFiles_visit_def split: option.splits)

lemma loadFiles_ok:
  "walk_ok w dataPath \<Longrightarrow>
   loadFiles w dataPath v = (None, v\<lparr>v_files := v_files v @ tsm_files w dataPath\<rparr>)"
  by (simp add: loadFiles_def walk_ok_def tsm_files_def WalkDir_loadFiles_ok)

lemma loadFiles_failed:
  "\<not> walk_ok w dataPath \<Longrightarrow> \<exists>e v'. loadFiles w dataPath v = (Some e, v')"
  using WalkDir_loadFiles_failed [of "walk w dataPath" "v_files v"]
  by (auto simp add: loadFiles_def walk_ok_def)

section \<open>Block checksums\<close>

lemma verifyChecksums_blocks_eq:
  "verifyChecksums_blocks verbose_flag bs count (v, fileErrors, out) =
     (v\<lparr>c_totalErrors := c_totalErrors v + length (filter broken_block bs),
        c_total := c_total v + length bs\<rparr>,
      fileErrors + length (filter broken_block bs),
      out @ (if verbose_flag then blocks_report (v_f v) count bs else []))"
proof (induction bs arbitrary: count v fileErrors out)
  case Nil
  show ?case by simp
next
  case (Cons b bs)
  show ?case
  proof (cases "b_err b")
    case (Some err)
    then show ?thesis
      by (simp add: Cons.IH Let_def broken_block_def block_report_def)
  next
    case None
    then show ?thesis
      by (simp add: Cons.IH Let_def broken_block_def block_report_def)
  qed
qed

lemma verifyChecksums_file_eq:
  "verifyChecksums_file verbose_flag r (v, out) =
     (v\<lparr>c_totalErrors := c_totalErrors v + length (filter broken_block (blocks r)),
        c_total := c_total v + length (blocks r)\<rparr>,
      out @ (if verbose_flag then checksums_file_report (v_f v) r else []))"
  by (simp add: verifyChecksums_blocks_eq BlockIterator_def checksums_file_report_def Let_def)

lemma verifyChecksums_loop_prefix:
  assumes "v_files v = pre @ rest" and "\<forall>p\<in>set pre. tsmReader w p = Inr (R p)"
  shows "\<exists>v'. v_files v' = rest
     \<and> c_totalErrors v' = c_totalErrors v + (\<Sum>p\<leftarrow>pre. length (filter broken_block (blocks (R p))))
     \<and> c_total v' = c_total v + (\<Sum>p\<leftarrow>pre. length (blocks (R p)))
     \<and> verifyChecksums_loop w verbose_flag (v, out) =
         verifyChecksums_loop w verbose_flag
           (v', out @ (if verbose_flag then concat (map (\<lambda>p. checksums_file_report p (R p)) pre) else []))"
  using assms
proof (induction pre arbitrary: v out)
  case Nil
  then show ?case by (intro exI [of _ v]) simp
next
  case (Cons p pre)
  let ?v0 = "v\<lparr>v_f := p, v_files := pre @ rest\<rparr>"
  let ?v1 = "?v0\<lparr>c_totalErrors := c_totalErrors v + length (filter broken_block (blocks (R p))),
        c_total := c_total v + length (blocks (R p))\<rparr>"
  let ?out1 = "out @ (if verbose_flag then checksums_file_report p (R p) else [])"
  have nxt: "verifyTSM_next v = (True, ?v0)"
    using Cons.prems by (simp add: verifyTSM_next_def)
  have opn: "tsmReader w p = Inr (R p)" using Cons.prems by simp
  have step: "verifyChecksums_loop w verbose_flag (v, out) = verifyChecksums_loop w verbose_flag (?v1, ?out1)"
    by (subst verifyChecksums_loop.simps)
       (simp add: nxt opn verifyChecksums_file_eq del: verifyChecksums_file.simps)
  have "v_files ?v1 = pre @ rest" by simp
  moreover have "\<forall>q\<in>set pre. tsmReader w q = Inr (R q)" using Cons.prems by simp
  ultimately obtain v' where v': "v_files v' = rest"
    "c_totalErrors v' = c_totalErrors ?v1 + (\<Sum>p\<leftarrow>pre. length (filter broken_block (blocks (R p))))"
    "c_total v' = c_total ?v1 + (\<Sum>p\<leftarrow>pre. length (blocks (R p)))"
    "verifyChecksums_loop w verbose_flag (?v1, ?out1) =
         verifyChecksums_loop w verbose_flag
           (v', ?out1 @ (if verbose_flag then concat (map (\<lambda>p. checksums_file_report p (R p)) pre) else []))"
    using Cons.IH [of ?v1 ?out1] by blast
  show ?case
    by (intro exI [of _ v']) (simp add: v' step)
qed

lemma verifyChecksums_loop_done:
  "v_files v = [] \<Longrightarrow> verifyChecksums_loop w verbose_flag (v, out) = (None, v, out)"
  by (subst verifyChecksums_loop.simps) (simp add: verifyTSM_next_def)

lemma verifyChecksums_loop_unopened:
  "v_files v = f # post \<Longrightarrow> tsmReader w f = Inl e \<Longrightarrow>
   \<exists>v'. verifyChecksums_loop w verbose_flag (v, out) = (Some e, v', out)"
  by (subst verifyChecksums_loop.simps) (simp add: verifyTSM_next_def)

lemma verifyChecksums_run_ok:
  assumes "walk_ok w dataPath" and "v_files v = []"
    and "\<forall>p\<in>set (tsm_files w dataPath). tsmReader w p = Inr (R p)"
  shows "verifyChecksums_run w v dataPath verbose_flag =
     (None,
      (if verbose_flag
       then concat (map (\<lambda>p. checksums_file_report p (R p)) (tsm_files w dataPath)) else [])
      @ [BrokenBlocks
          (c_totalErrors v + (\<Sum>p\<leftarrow>tsm_files w dataPath. length (filter broken_block (blocks (R p)))))
          (c_total v + (\<Sum>p\<leftarrow>tsm_files w dataPath. length (blocks (R p))))])"
proof -
  let ?v0 = "v\<lparr>v_files := tsm_files w dataPath\<rparr>"
  have load: "loadFiles w dataPath v = (None, ?v0)"
    using assms(1,2) by (simp add: loadFiles_ok)
  obtain v' where v': "v_files v' = []"
    "c_totalErrors v' = c_totalErrors ?v0 + (\<Sum>p\<leftarrow>tsm_files w dataPath. length (filter broken_block (blocks (R p))))"
    "c_total v' = c_total ?v0 + (\<Sum>p\<leftarrow>tsm_files w dataPath. length (blocks (R p)))"
    "verifyChecksums_loop w verbose_flag (?v0, []) =
       verifyChecksums_loop w verbose_flag
         (v', [] @ (if verbose_flag
            then concat (map (\<lambda>p. checksums_file_report p (R p)) (tsm_files w dataPath)) else []))"
    using verifyChecksums_loop_prefix [of ?v0 "tsm_files w dataPath" "[]" w R verbose_flag "[]"] assms(3)
    by auto
  show ?thesis
    by (simp add: verifyChecksums_run_def load v' verifyChecksums_loop_done)
qed

lemma verifyChecksums_run_abort:
  assumes "walk_ok w dataPath" and "v_files v = []"
    and "tsm_files w dataPath = pre @ f # post"
    and "\<forall>p\<in>set pre. tsmReader w p = Inr (R p)"
    and "tsmReader w f = Inl e"
  shows "verifyChecksums_run w v dataPath verbose_flag =
     (Some e, if verbose_flag then concat (map (\<lambda>p. checksums_file_report p (R p)) pre) else [])"
proof -
  let ?v0 = "v\<lparr>v_files := pre @ f # post\<rparr>"
  let ?out = "if verbose_flag then concat (map (\<lambda>p. checksums_file_report p (R p)) pre) else []"
  have load: "loadFiles w dataPath v = (None, ?v0)"
    using assms(1,2,3) by (simp add: loadFiles_ok)
  obtain v' where v': "v_files v' = f # post"
    "verifyChecksums_loop w verbose_flag (?v0, []) = verifyChecksums_loop w verbose_flag (v', [] @ ?out)"
    using verifyChecksums_loop_prefix [of ?v0 pre "f # post" w R verbose_flag "[]"] assms(4)
    by auto
  obtain v'' where "verifyChecksums_loop w verbose_flag (v', ?out) = (Some e, v'', ?out)"
    using verifyChecksums_loop_unopened [OF v'(1) assms(5)] by blast
  then show ?thesis
    using v'(2) by (simp add: verifyChecksums_run_def load)
qed

lemma verifyChecksums_run_walk_failed:
  "\<not> walk_ok w dataPath \<Longrightarrow> \<exists>e. verifyChecksums_run w v dataPath verbose_flag = (Some e, [])"
  using loadFiles_failed [of w dataPath v]
  by (auto simp add: verifyChecksums_run_def)

lemma first_unopened:
  assumes "\<not> (\<forall>p\<in>set fs. \<exists>r. tsmReader w p = Inr r)"
  shows "\<exists>pre f post e. fs = pre @ f # post \<and> tsmReader w f = Inl e
     \<and> (\<forall>p\<in>set pre. tsmReader w p = Inr (projr (tsmReader w p)))"
proof -
  have "\<exists>p\<in>set fs. isl (tsmReader w p)"
    using assms by (metis sum.collapse(2))
  then obtain pre f post where s: "fs = pre @ f # post" "isl (tsmReader w f)"
    "\<forall>p\<in>set pre. \<not> isl (tsmReader w p)"
    using split_list_first_prop [of fs "\<lambda>p. isl (tsmReader w p)"] by blast
  from s(2) obtain e where "tsmReader w f = Inl e" by (auto simp add: isl_def)
  with s(1,3) show ?thesis by (intro exI [of _ pre] exI [of _ f] exI [of _ post] exI [of _ e]) simp
qed

lemma BrokenBlocks_notin_block_report: "BrokenBlocks a b \<notin> set (blocks_report p n bs)"
  by (induction bs arbitrary: n) (auto simp add: block_report_def split: option.splits)

lemma BrokenBlocks_notin_reports:
  "BrokenBlocks a b \<notin> set (concat (map (\<lambda>p. checksums_file_report p (R p)) fs))"
  by (auto simp add: checksums_file_report_def BrokenBlocks_notin_block_report)

section \<open>The claims about block checksums and the configuration\<close>

lemma ChecksumIEEE_a: "ChecksumIEEE [0x61] = 0xE8B7BE43"
  by code_simp

lemma tsm_files_fs_corrupted: "tsm_files fs_corrupted ''engine'' = [''engine/000000001-000000001.tsm'']"
  by (simp add: tsm_files_def fs_corrupted_def Ext_def)

lemma walk_ok_fs_corrupted: "walk_ok fs_corrupted ''engine''"
  by (simp add: walk_ok_def fs_corrupted_def)

lemma tsmReader_fs_corrupted:
  "tsmReader fs_corrupted p = Inr \<lparr>index_keys = [cpu_key], blocks = [corrupted_block]\<rparr>"
  by (simp add: tsmReader_def fs_corrupted_def)

lemma broken_corrupted_block: "broken_block corrupted_block"
  by (simp add: broken_block_def corrupted_block_def ChecksumIEEE_a)

text \<open>
  C1. The claim: in its default mode verify-tsm returns a non-nil error whenever a block
  is broken, and on a directory with one file holding one block of corrupted checksum it
  reports one broken block of one and exits non-zero. On that directory the code reports
  \<open>BrokenBlocks 1 1\<close> and returns no error: \<^verbatim>\<open>verifyChecksums.run\<close> ends with
  \<^verbatim>\<open>return nil\<close> whatever it counted, where \<^verbatim>\<open>verifyUTF8.run\<close> returns an error
  when its count of errors is positive.
\<close>

theorem verify_tsm_corrupted_exits_zero:
  "verify_tsm fs_corrupted ''engine'' False False = (None, [BrokenBlocks 1 1])"
  using verifyChecksums_run_ok [of fs_corrupted "''engine''"
      "\<lparr>v_files = [], v_f = [], c_totalErrors = 0, c_total = 0\<rparr>"
      "\<lambda>p. \<lparr>index_keys = [cpu_key], blocks = [corrupted_block]\<rparr>" False]
  by (simp add: verify_tsm_def walk_ok_fs_corrupted tsm_files_fs_corrupted tsmReader_fs_corrupted
      broken_corrupted_block)

text \<open>
  C8. The default write timeout is ten seconds (\<open>10 * Second\<close>, that is
  10,000,000,000 nanoseconds), and \<open>NewConfig\<close> returns a configuration whose
  \<open>WriteTimeout\<close> is \<open>DefaultWriteTimeout\<close>.
\<close>

theorem DefaultWriteTimeout_ten_seconds:
  "DefaultWriteTimeout = 10 * Second \<and> sint DefaultWriteTimeout = 10 * 1000000000
   \<and> WriteTimeout (NewConfig d r p) = DefaultWriteTimeout"
  by (simp add: DefaultWriteTimeout_def Second_def Millisecond_def Microsecond_def
      Nanosecond_def NewConfig_def)

lemma blocks_report_append:
  "blocks_report f n (xs @ ys) = blocks_report f n xs @ blocks_report f (n + length xs) ys"
  by (induction xs arbitrary: n) simp_all

text \<open>
  C2. In the default mode, when the traversal succeeds and every discovered file opens,
  the run ends with the summary whose total is the number of blocks the iterators of all
  files yield and whose bad count is the number of broken blocks among them (read error,
  or CRC-32 of the raw bytes different from the stored checksum). Conversely a summary
  is only ever printed in that case and with those two counts. The run looks at a
  block's raw bytes through \<open>ChecksumIEEE\<close> alone.
\<close>

theorem verify_tsm_checksums_counts:
  "(walk_ok w dir \<and> (\<forall>p\<in>set (tsm_files w dir). tsmReader w p = Inr (R p)) \<longrightarrow>
      verify_tsm w dir False verbose_flag =
        (None,
         (if verbose_flag
          then concat (map (\<lambda>p. checksums_file_report p (R p)) (tsm_files w dir)) else [])
         @ [BrokenBlocks
             (\<Sum>p\<leftarrow>tsm_files w dir. length (filter broken_block (blocks (R p))))
             (\<Sum>p\<leftarrow>tsm_files w dir. length (blocks (R p)))]))
   \<and> (BrokenBlocks nbad ntotal \<in> set (snd (verify_tsm w dir False verbose_flag)) \<longrightarrow>
      walk_ok w dir \<and> (\<forall>p\<in>set (tsm_files w dir). \<exists>r. tsmReader w p = Inr r)
      \<and> nbad = (\<Sum>p\<leftarrow>tsm_files w dir. length (filter broken_block (blocks (projr (tsmReader w p)))))
      \<and> ntotal = (\<Sum>p\<leftarrow>tsm_files w dir. length (blocks (projr (tsmReader w p)))))"
proof (intro conjI impI)
  let ?v = "\<lparr>v_files = [], v_f = [], c_totalErrors = 0, c_total = 0\<rparr>"
  have run: "verify_tsm w dir False verbose_flag = verifyChecksums_run w ?v dir verbose_flag"
    by (simp add: verify_tsm_def)
  {
    assume "walk_ok w dir \<and> (\<forall>p\<in>set (tsm_files w dir). tsmReader w p = Inr (R p))"
    then show "verify_tsm w dir False verbose_flag =
        (None,
         (if verbose_flag
          then concat (map (\<lambda>p. checksums_file_report p (R p)) (tsm_files w dir)) else [])
         @ [BrokenBlocks
             (\<Sum>p\<leftarrow>tsm_files w dir. length (filter broken_block (blocks (R p))))
             (\<Sum>p\<leftarrow>tsm_files w dir. length (blocks (R p)))])"
      using verifyChecksums_run_ok [of w dir ?v R verbose_flag] by (simp add: run)
  }
  assume summary: "BrokenBlocks nbad ntotal \<in> set (snd (verify_tsm w dir False verbose_flag))"
  show ok: "walk_ok w dir"
  proof (rule ccontr)
    assume "\<not> walk_ok w dir"
    then obtain e where "verifyChecksums_run w ?v dir verbose_flag = (Some e, [])"
      using verifyChecksums_run_walk_failed by blast
    then show False using summary by (simp add: run)
  qed
  show opened: "\<forall>p\<in>set (tsm_files w dir). \<exists>r. tsmReader w p = Inr r"
  proof (rule ccontr)
    assume "\<not> (\<forall>p\<in>set (tsm_files w dir). \<exists>r. tsmReader w p = Inr r)"
    then obtain pre f post e where s: "tsm_files w dir = pre @ f # post" "tsmReader w f = Inl e"
      "\<forall>p\<in>set pre. tsmReader w p = Inr (projr (tsmReader w p))"
      using first_unopened by blast
    have "verifyChecksums_run w ?v dir verbose_flag =
      (Some e, if verbose_flag
         then concat (map (\<lambda>p. checksums_file_report p (projr (tsmReader w p))) pre) else [])"
      using verifyChecksums_run_abort [OF ok _ s(1) s(3) s(2)] by simp
    then show False
      using summary BrokenBlocks_notin_reports [of nbad ntotal "\<lambda>p. projr (tsmReader w p)" pre]
      by (simp add: run split: if_splits)
  qed
  have R: "\<forall>p\<in>set (tsm_files w dir). tsmReader w p = Inr (projr (tsmReader w p))"
    using opened by auto
  have "verifyChecksums_run w ?v dir verbose_flag =
     (None,
      (if verbose_flag
       then concat (map (\<lambda>p. checksums_file_report p (projr (tsmReader w p))) (tsm_files w dir)) else [])
      @ [BrokenBlocks
          (c_totalErrors ?v + (\<Sum>p\<leftarrow>tsm_files w dir. length (filter broken_block (blocks (projr (tsmReader w p))))))
          (c_total ?v + (\<Sum>p\<leftarrow>tsm_files w dir. length (blocks (projr (tsmReader w p)))))])"
    using verifyChecksums_run_ok [OF ok _ R] by simp
  then have both: "nbad = (\<Sum>p\<leftarrow>tsm_files w dir. length (filter broken_block (blocks (projr (tsmReader w p)))))
      \<and> ntotal = (\<Sum>p\<leftarrow>tsm_files w dir. length (blocks (projr (tsmReader w p))))"
    using summary BrokenBlocks_notin_reports [of nbad ntotal "\<lambda>p. projr (tsmReader w p)" "tsm_files w dir"]
    by (simp add: run split: if_splits)
  show "nbad = (\<Sum>p\<leftarrow>tsm_files w dir. length (filter broken_block (blocks (projr (tsmReader w p)))))"
    using both by simp
  show "ntotal = (\<Sum>p\<leftarrow>tsm_files w dir. length (blocks (projr (tsmReader w p))))"
    using both by simp
qed

lemma tsm_files_fs_two_files: "tsm_files fs_two_files ''engine'' = [''engine/1.tsm'', ''engine/2.tsm'']"
  by (simp add: tsm_files_def fs_two_files_def Ext_def)

lemma walk_ok_fs_two_files: "walk_ok fs_two_files ''engine''"
  by (simp add: walk_ok_def fs_two_files_def)

lemma tsmReader_fs_two_files:
  "tsmReader fs_two_files ''engine/1.tsm'' = Inr \<lparr>index_keys = [cpu_key], blocks = [sound_block, corrupted_block]\<rparr>"
  "tsmReader fs_two_files ''engine/2.tsm'' = Inr \<lparr>index_keys = [cpu_key, [0xFF]], blocks = [sound_block]\<rparr>"
  by (simp_all add: tsmReader_def fs_two_files_def)

lemma sound_sound_block: "\<not> broken_block sound_block"
  by (simp add: broken_block_def sound_block_def ChecksumIEEE_a)

theorem verify_tsm_checksums_counts_witness:
  "walk_ok fs_two_files ''engine''
   \<and> verify_tsm fs_two_files ''engine'' False False = (None, [BrokenBlocks 1 3])
   \<and> BrokenBlocks 1 3 \<in> set (snd (verify_tsm fs_two_files ''engine'' False False))"
  using verify_tsm_checksums_counts [of fs_two_files "''engine''"
      "\<lambda>p. projr (tsmReader fs_two_files p)" False 1 3]
  by (simp add: walk_ok_fs_two_files tsm_files_fs_two_files tsmReader_fs_two_files
      sound_sound_block broken_corrupted_block)

text \<open>
  C9. Flipping any single bit of a byte sequence changes its CRC-32. Hence a block that
  carries the checksum of its original bytes is not broken, and is broken once one bit
  of its bytes is flipped. Wherever the block stands in its file, whatever its
  neighbours are and whether the run is verbose or not, the scan with the flipped block
  differs from the scan with the original block by exactly one more error counted and,
  in a verbose run, by exactly one more line: the mismatch with that block's index.
\<close>

theorem single_bit_flip_reported:
  assumes "i < 8 * length buf"
    and "b_err b = None" and "b_checksum b = ChecksumIEEE buf"
  shows "ChecksumIEEE (flip_block_bit buf i) \<noteq> ChecksumIEEE buf
    \<and> \<not> broken_block (b\<lparr>b_buf := buf\<rparr>)
    \<and> broken_block (b\<lparr>b_buf := flip_block_bit buf i\<rparr>)
    \<and> verifyChecksums_blocks verbose_flag (pre @ b\<lparr>b_buf := buf\<rparr> # post) count
          (v, fileErrors, out) =
        (v\<lparr>c_totalErrors := c_totalErrors v
              + (length (filter broken_block pre) + length (filter broken_block post)),
            c_total := c_total v + (length pre + 1 + length post)\<rparr>,
         fileErrors + (length (filter broken_block pre) + length (filter broken_block post)),
         out @ (if verbose_flag
                then blocks_report (v_f v) count pre
                  @ blocks_report (v_f v) (count + length pre + 1) post
                else []))
    \<and> verifyChecksums_blocks verbose_flag (pre @ b\<lparr>b_buf := flip_block_bit buf i\<rparr> # post) count
          (v, fileErrors, out) =
        (v\<lparr>c_totalErrors := c_totalErrors v
              + (length (filter broken_block pre) + 1 + length (filter broken_block post)),
            c_total := c_total v + (length pre + 1 + length post)\<rparr>,
         fileErrors + (length (filter broken_block pre) + 1 + length (filter broken_block post)),
         out @ (if verbose_flag
                then blocks_report (v_f v) count pre
                  @ [ChecksumMismatch (v_f v) (ChecksumIEEE buf)
                       (ChecksumIEEE (flip_block_bit buf i)) (b_key b) (count + length pre)]
                  @ blocks_report (v_f v) (count + length pre + 1) post
                else []))"
proof (intro conjI)
  show differs: "ChecksumIEEE (flip_block_bit buf i) \<noteq> ChecksumIEEE buf"
    using assms(1) by (rule ChecksumIEEE_flip_block_bit)
  show sound: "\<not> broken_block (b\<lparr>b_buf := buf\<rparr>)"
    using assms(2,3) by (simp add: broken_block_def)
  show broken: "broken_block (b\<lparr>b_buf := flip_block_bit buf i\<rparr>)"
    using differs assms(3) by (simp add: broken_block_def)
  have quiet_report: "block_report (v_f v) (count + length pre) (b\<lparr>b_buf := buf\<rparr>) = []"
    using assms(2,3) by (simp add: block_report_def)
  have report: "block_report (v_f v) (count + length pre) (b\<lparr>b_buf := flip_block_bit buf i\<rparr>) =
      [ChecksumMismatch (v_f v) (ChecksumIEEE buf) (ChecksumIEEE (flip_block_bit buf i))
         (b_key b) (count + length pre)]"
    using differs assms(2,3) by (simp add: block_report_def)
  show "verifyChecksums_blocks verbose_flag (pre @ b\<lparr>b_buf := buf\<rparr> # post) count
          (v, fileErrors, out) =
        (v\<lparr>c_totalErrors := c_totalErrors v
              + (length (filter broken_block pre) + length (filter broken_block post)),
            c_total := c_total v + (length pre + 1 + length post)\<rparr>,
         fileErrors + (length (filter broken_block pre) + length (filter broken_block post)),
         out @ (if verbose_flag
                then blocks_report (v_f v) count pre
                  @ blocks_report (v_f v) (count + length pre + 1) post
                else []))"
    using sound by (simp add: verifyChecksums_blocks_eq blocks_report_append quiet_report)
  show "verifyChecksums_blocks verbose_flag (pre @ b\<lparr>b_buf := flip_block_bit buf i\<rparr> # post) count
          (v, fileErrors, out) =
        (v\<lparr>c_totalErrors := c_totalErrors v
              + (length (filter broken_block pre) + 1 + length (filter broken_block post)),
            c_total := c_total v + (length pre + 1 + length post)\<rparr>,
         fileErrors + (length (filter broken_block pre) + 1 + length (filter broken_block post)),
         out @ (if verbose_flag
                then blocks_report (v_f v) count pre
                  @ [ChecksumMismatch (v_f v) (ChecksumIEEE buf)
                       (ChecksumIEEE (flip_block_bit buf i)) (b_key b) (count + length pre)]
                  @ blocks_report (v_f v) (count + length pre + 1) post
                else []))"
    using broken by (simp add: verifyChecksums_blocks_eq blocks_report_append report)
qed

lemma block_report_corrupted_block:
  "block_report f n corrupted_block = [ChecksumMismatch f 0xE8B7BE42 0xE8B7BE43 cpu_key n]"
  by (simp add: block_report_def corrupted_block_def ChecksumIEEE_a)

lemma sound_block_fields:
  "b_err sound_block = None" "b_checksum sound_block = ChecksumIEEE [0x61]"
  "b_key sound_block = cpu_key"
  by (simp_all add: sound_block_def ChecksumIEEE_a)

lemma sound_block_buf: "sound_block\<lparr>b_buf := [0x61]\<rparr> = sound_block"
  by (simp add: sound_block_def)

lemma flip_block_bit_a: "flip_block_bit [0x61] 0 = [0x60]"
  by (simp add: flip_block_bit_def)

lemma flipped_block_eq: "sound_block\<lparr>b_buf := [0x60]\<rparr> = flipped_block"
  by (simp add: sound_block_def flipped_block_def)

lemma block_report_sound_block: "block_report f n sound_block = []"
  by (simp add: block_report_def sound_block_def ChecksumIEEE_a)

theorem single_bit_flip_reported_witness:
  "(0::nat) < 8 * length [0x61 :: byte]
   \<and> ChecksumIEEE [0x60] \<noteq> ChecksumIEEE [0x61]
   \<and> verifyChecksums_blocks True [corrupted_block, sound_block, sound_block] 0
        (\<lparr>v_files = [], v_f = ''engine/1.tsm'', c_totalErrors = 0, c_total = 0\<rparr>, 0, []) =
      (\<lparr>v_files = [], v_f = ''engine/1.tsm'', c_totalErrors = 1, c_total = 3\<rparr>, 1,
       [ChecksumMismatch ''engine/1.tsm'' 0xE8B7BE42 0xE8B7BE43 cpu_key 0])
   \<and> verifyChecksums_blocks True [corrupted_block, flipped_block, sound_block] 0
        (\<lparr>v_files = [], v_f = ''engine/1.tsm'', c_totalErrors = 0, c_total = 0\<rparr>, 0, []) =
      (\<lparr>v_files = [], v_f = ''engine/1.tsm'', c_totalErrors = 2, c_total = 3\<rparr>, 2,
       [ChecksumMismatch ''engine/1.tsm'' 0xE8B7BE42 0xE8B7BE43 cpu_key 0,
        ChecksumMismatch ''engine/1.tsm'' 0xE8B7BE43 (ChecksumIEEE [0x60]) cpu_key 1])
   \<and> verifyChecksums_blocks False [corrupted_block, flipped_block, sound_block] 0
        (\<lparr>v_files = [], v_f = ''engine/1.tsm'', c_totalErrors = 0, c_total = 0\<rparr>, 0, []) =
      (\<lparr>v_files = [], v_f = ''engine/1.tsm'', c_totalErrors = 2, c_total = 3\<rparr>, 2, [])"
  using single_bit_flip_reported [of 0 "[0x61]" sound_block True "[corrupted_block]"
      "[sound_block]" 0 "\<lparr>v_files = [], v_f = ''engine/1.tsm'', c_totalErrors = 0, c_total = 0\<rparr>" 0 "[]"]
    single_bit_flip_reported [of 0 "[0x61]" sound_block False "[corrupted_block]"
      "[sound_block]" 0 "\<lparr>v_files = [], v_f = ''engine/1.tsm'', c_totalErrors = 0, c_total = 0\<rparr>" 0 "[]"]
  by (simp add: sound_block_buf flip_block_bit_a flipped_block_eq ChecksumIEEE_a sound_sound_block
      broken_corrupted_block block_report_corrupted_block sound_block_fields
      block_report_sound_block del: verifyChecksums_blocks.simps)

section \<open>Key validity, and files that cannot be opened\<close>

lemma verifyUTF8_keys_eq:
  "verifyUTF8_keys verbose_flag r n i (v, fileErrors, out) =
     (v\<lparr>u_totalErrors :=
          u_totalErrors v + length (filter (\<lambda>i. \<not> utf8_Valid (KeyAt r i)) [i..<n])\<rparr>,
      fileErrors + length (filter (\<lambda>i. \<not> utf8_Valid (KeyAt r i)) [i..<n]),
      out @ (if verbose_flag
             then map (KeyNotValidUTF8 (v_f v)) (filter (\<lambda>i. \<not> utf8_Valid (KeyAt r i)) [i..<n])
             else []))"
proof (induction verbose_flag r n i "(v, fileErrors, out)" arbitrary: v fileErrors out
    rule: verifyUTF8_keys.induct)
  case (1 verbose_flag reader n i v fileErrors out)
  show ?case
  proof (cases "i < n")
    case False
    then show ?thesis by (subst verifyUTF8_keys.simps) simp
  next
    case True
    then have upt: "[i..<n] = i # [Suc i..<n]" by (simp add: upt_conv_Cons)
    show ?thesis
    proof (cases "utf8_Valid (KeyAt reader i)")
      case valid: True
      show ?thesis
        using True valid "1.hyps"(2) [OF True refl]
        by (subst verifyUTF8_keys.simps) (simp add: upt Let_def)
    next
      case invalid: False
      show ?thesis
        using True invalid "1.hyps"(1) [OF True refl]
        by (subst verifyUTF8_keys.simps) (simp add: upt Let_def)
    qed
  qed
qed

lemma verifyUTF8_file_eq:
  "verifyUTF8_file verbose_flag r (v, out) =
     (v\<lparr>u_totalErrors := u_totalErrors v + length (invalid_key_indices r),
        u_total := u_total v + KeyCount r\<rparr>,
      out @ (if verbose_flag then utf8_file_report (v_f v) r else []))"
  by (simp add: verifyUTF8_keys_eq utf8_file_report_def invalid_key_indices_def Let_def)

lemma verifyUTF8_loop_prefix:
  assumes "v_files v = pre @ rest" and "\<forall>p\<in>set pre. tsmReader w p = Inr (R p)"
  shows "\<exists>v'. v_files v' = rest
     \<and> u_totalErrors v' = u_totalErrors v + (\<Sum>p\<leftarrow>pre. length (invalid_key_indices (R p)))
     \<and> u_total v' = u_total v + (\<Sum>p\<leftarrow>pre. KeyCount (R p))
     \<and> verifyUTF8_loop w verbose_flag (v, out) =
         verifyUTF8_loop w verbose_flag
           (v', out @ (if verbose_flag then concat (map (\<lambda>p. utf8_file_report p (R p)) pre) else []))"
  using assms
proof (induction pre arbitrary: v out)
  case Nil
  then show ?case by (intro exI [of _ v]) simp
next
  case (Cons p pre)
  let ?v0 = "v\<lparr>v_f := p, v_files := pre @ rest\<rparr>"
  let ?v1 = "?v0\<lparr>u_totalErrors := u_totalErrors v + length (invalid_key_indices (R p)),
        u_total := u_total v + KeyCount (R p)\<rparr>"
  let ?out1 = "out @ (if verbose_flag then utf8_file_report p (R p) else [])"
  have nxt: "verifyTSM_next v = (True, ?v0)"
    using Cons.prems by (simp add: verifyTSM_next_def)
  have opn: "tsmReader w p = Inr (R p)" using Cons.prems by simp
  have step: "verifyUTF8_loop w verbose_flag (v, out) = verifyUTF8_loop w verbose_flag (?v1, ?out1)"
    by (subst verifyUTF8_loop.simps)
       (simp add: nxt opn verifyUTF8_file_eq del: verifyUTF8_file.simps)
  have "v_files ?v1 = pre @ rest" by simp
  moreover have "\<forall>q\<in>set pre. tsmReader w q = Inr (R q)" using Cons.prems by simp
  ultimately obtain v' where v': "v_files v' = rest"
    "u_totalErrors v' = u_totalErrors ?v1 + (\<Sum>p\<leftarrow>pre. length (invalid_key_indices (R p)))"
    "u_total v' = u_total ?v1 + (\<Sum>p\<leftarrow>pre. KeyCount (R p))"
    "verifyUTF8_loop w verbose_flag (?v1, ?out1) =
         verifyUTF8_loop w verbose_flag
           (v', ?out1 @ (if verbose_flag then concat (map (\<lambda>p. utf8_file_report p (R p)) pre) else []))"
    using Cons.IH [of ?v1 ?out1] by blast
  show ?case
    by (intro exI [of _ v']) (simp add: v' step)
qed

lemma verifyUTF8_loop_done:
  "v_files v = [] \<Longrightarrow> verifyUTF8_loop w verbose_flag (v, out) = (None, v, out)"
  by (subst verifyUTF8_loop.simps) (simp add: verifyTSM_next_def)

lemma verifyUTF8_loop_unopened:
  "v_files v = f # post \<Longrightarrow> tsmReader w f = Inl e \<Longrightarrow>
   \<exists>v'. verifyUTF8_loop w verbose_flag (v, out) = (Some e, v', out)"
  by (subst verifyUTF8_loop.simps) (simp add: verifyTSM_next_def)

lemma sum_list_positive: "(\<Sum>x\<leftarrow>xs. f x) > (0::nat) \<longleftrightarrow> (\<exists>x\<in>set xs. f x > 0)"
  by (induction xs) auto

lemma verifyUTF8_run_ok:
  assumes "walk_ok w dataPath" and "v_files v = []"
    and "\<forall>p\<in>set (tsm_files w dataPath). tsmReader w p = Inr (R p)"
  shows "verifyUTF8_run w v dataPath verbose_flag =
     (if u_totalErrors v + (\<Sum>p\<leftarrow>tsm_files w dataPath. length (invalid_key_indices (R p))) > 0
      then Some (errors_New ''check-utf8: failed'') else None,
      (if verbose_flag
       then concat (map (\<lambda>p. utf8_file_report p (R p)) (tsm_files w dataPath)) else [])
      @ [InvalidKeys
          (u_totalErrors v + (\<Sum>p\<leftarrow>tsm_files w dataPath. length (invalid_key_indices (R p))))
          (u_total v + (\<Sum>p\<leftarrow>tsm_files w dataPath. KeyCount (R p)))])"
proof -
  let ?v0 = "v\<lparr>v_files := tsm_files w dataPath\<rparr>"
  have load: "loadFiles w dataPath v = (None, ?v0)"
    using assms(1,2) by (simp add: loadFiles_ok)
  obtain v' where v': "v_files v' = []"
    "u_totalErrors v' = u_totalErrors ?v0 + (\<Sum>p\<leftarrow>tsm_files w dataPath. length (invalid_key_indices (R p)))"
    "u_total v' = u_total ?v0 + (\<Sum>p\<leftarrow>tsm_files w dataPath. KeyCount (R p))"
    "verifyUTF8_loop w verbose_flag (?v0, []) =
       verifyUTF8_loop w verbose_flag
         (v', [] @ (if verbose_flag
            then concat (map (\<lambda>p. utf8_file_report p (R p)) (tsm_files w dataPath)) else []))"
    using verifyUTF8_loop_prefix [of ?v0 "tsm_files w dataPath" "[]" w R verbose_flag "[]"] assms(3)
    by auto
  show ?thesis
    by (auto simp add: verifyUTF8_run_def load v' verifyUTF8_loop_done Let_def sum_list_positive)
qed

lemma verifyUTF8_run_abort:
  assumes "walk_ok w dataPath" and "v_files v = []"
    and "tsm_files w dataPath = pre @ f # post"
    and "\<forall>p\<in>set pre. tsmReader w p = Inr (R p)"
    and "tsmReader w f = Inl e"
  shows "verifyUTF8_run w v dataPath verbose_flag =
     (Some e, if verbose_flag then concat (map (\<lambda>p. utf8_file_report p (R p)) pre) else [])"
proof -
  let ?v0 = "v\<lparr>v_files := pre @ f # post\<rparr>"
  let ?out = "if verbose_flag then concat (map (\<lambda>p. utf8_file_report p (R p)) pre) else []"
  have load: "loadFiles w dataPath v = (None, ?v0)"
    using assms(1,2,3) by (simp add: loadFiles_ok)
  obtain v' where v': "v_files v' = f # post"
    "verifyUTF8_loop w verbose_flag (?v0, []) = verifyUTF8_loop w verbose_flag (v', [] @ ?out)"
    using verifyUTF8_loop_prefix [of ?v0 pre "f # post" w R verbose_flag "[]"] assms(4)
    by auto
  obtain v'' where "verifyUTF8_loop w verbose_flag (v', ?out) = (Some e, v'', ?out)"
    using verifyUTF8_loop_unopened [OF v'(1) assms(5)] by blast
  then show ?thesis
    using v'(2) by (simp add: verifyUTF8_run_def load)
qed

lemma verifyUTF8_run_walk_failed:
  "\<not> walk_ok w dataPath \<Longrightarrow> \<exists>e. verifyUTF8_run w v dataPath verbose_flag = (Some e, [])"
  using loadFiles_failed [of w dataPath v]
  by (auto simp add: verifyUTF8_run_def)

lemma summary_notin_utf8_reports:
  "InvalidKeys a b \<notin> set (concat (map (\<lambda>p. utf8_file_report p (R p)) fs))"
  by (auto simp add: utf8_file_report_def)

lemma invalid_key_indices_empty:
  "invalid_key_indices r = [] \<longleftrightarrow> (\<forall>k\<in>set (index_keys r). utf8_Valid k)"
  by (auto simp add: invalid_key_indices_def KeyCount_def KeyAt_def filter_empty_conv all_set_conv_all_nth)

lemma verify_tsm_utf8: "verify_tsm w dir True verbose_flag =
    verifyUTF8_run w \<lparr>v_files = [], v_f = [], u_totalErrors = 0, u_total = 0\<rparr> dir verbose_flag"
  by (simp add: verify_tsm_def)

lemma verify_tsm_checksums: "verify_tsm w dir False verbose_flag =
    verifyChecksums_run w \<lparr>v_files = [], v_f = [], c_totalErrors = 0, c_total = 0\<rparr> dir verbose_flag"
  by (simp add: verify_tsm_def)

text \<open>
  C4. With \<^verbatim>\<open>--check-utf8\<close>, when the traversal succeeds and every discovered file opens,
  the run ends with the summary whose total is the sum of the files' key counts and
  whose bad count is the number of pairs of a file and a key index whose key is not
  valid UTF-8; a verbose run names each such index once, in order. Conversely a summary
  is only printed in that case and with those counts. The indices checked for a file
  are exactly \<open>0 ..< KeyCount\<close>, each once, and everything printed is determined by the
  keys of the index: the blocks of a reader play no part.
\<close>

theorem verify_tsm_utf8_counts:
  "(walk_ok w dir \<and> (\<forall>p\<in>set (tsm_files w dir). tsmReader w p = Inr (R p)) \<longrightarrow>
      snd (verify_tsm w dir True verbose_flag) =
        (if verbose_flag
         then concat (map (\<lambda>p. utf8_file_report p (R p)) (tsm_files w dir)) else [])
        @ [InvalidKeys
            (\<Sum>p\<leftarrow>tsm_files w dir. length (invalid_key_indices (R p)))
            (\<Sum>p\<leftarrow>tsm_files w dir. KeyCount (R p))])
   \<and> (InvalidKeys nbad ntotal \<in> set (snd (verify_tsm w dir True verbose_flag)) \<longrightarrow>
      walk_ok w dir \<and> (\<forall>p\<in>set (tsm_files w dir). \<exists>r. tsmReader w p = Inr r)
      \<and> nbad = (\<Sum>p\<leftarrow>tsm_files w dir. length (invalid_key_indices (projr (tsmReader w p))))
      \<and> ntotal = (\<Sum>p\<leftarrow>tsm_files w dir. KeyCount (projr (tsmReader w p))))
   \<and> distinct (invalid_key_indices r)
   \<and> set (invalid_key_indices r) = {i. i < KeyCount r \<and> \<not> utf8_Valid (index_keys r ! i)}"
proof (intro conjI impI)
  let ?v = "\<lparr>v_files = [], v_f = [], u_totalErrors = 0, u_total = 0\<rparr>"
  note run = verify_tsm_utf8 [of w dir verbose_flag]
  show "distinct (invalid_key_indices r)"
    by (simp add: invalid_key_indices_def)
  show "set (invalid_key_indices r) = {i. i < KeyCount r \<and> \<not> utf8_Valid (index_keys r ! i)}"
    by (auto simp add: invalid_key_indices_def KeyAt_def KeyCount_def)
  {
    assume "walk_ok w dir \<and> (\<forall>p\<in>set (tsm_files w dir). tsmReader w p = Inr (R p))"
    then show "snd (verify_tsm w dir True verbose_flag) =
        (if verbose_flag
         then concat (map (\<lambda>p. utf8_file_report p (R p)) (tsm_files w dir)) else [])
        @ [InvalidKeys
            (\<Sum>p\<leftarrow>tsm_files w dir. length (invalid_key_indices (R p)))
            (\<Sum>p\<leftarrow>tsm_files w dir. KeyCount (R p))]"
      using verifyUTF8_run_ok [of w dir ?v R verbose_flag] by (simp add: run)
  }
  assume summary: "InvalidKeys nbad ntotal \<in> set (snd (verify_tsm w dir True verbose_flag))"
  show ok: "walk_ok w dir"
  proof (rule ccontr)
    assume "\<not> walk_ok w dir"
    then obtain e where "verifyUTF8_run w ?v dir verbose_flag = (Some e, [])"
      using verifyUTF8_run_walk_failed by blast
    then show False using summary by (simp add: run)
  qed
  show opened: "\<forall>p\<in>set (tsm_files w dir). \<exists>r. tsmReader w p = Inr r"
  proof (rule ccontr)
    assume "\<not> (\<forall>p\<in>set (tsm_files w dir). \<exists>r. tsmReader w p = Inr r)"
    then obtain pre f post e where s: "tsm_files w dir = pre @ f # post" "tsmReader w f = Inl e"
      "\<forall>p\<in>set pre. tsmReader w p = Inr (projr (tsmReader w p))"
      using first_unopened by blast
    have "verifyUTF8_run w ?v dir verbose_flag =
      (Some e, if verbose_flag
         then concat (map (\<lambda>p. utf8_file_report p (projr (tsmReader w p))) pre) else [])"
      using verifyUTF8_run_abort [OF ok _ s(1) s(3) s(2)] by simp
    then show False
      using summary summary_notin_utf8_reports [of nbad ntotal "\<lambda>p. projr (tsmReader w p)" pre]
      by (simp add: run split: if_splits)
  qed
  have R: "\<forall>p\<in>set (tsm_files w dir). tsmReader w p = Inr (projr (tsmReader w p))"
    using opened by auto
  have "snd (verifyUTF8_run w ?v dir verbose_flag) =
      (if verbose_flag
       then concat (map (\<lambda>p. utf8_file_report p (projr (tsmReader w p))) (tsm_files w dir)) else [])
      @ [InvalidKeys
          (u_totalErrors ?v + (\<Sum>p\<leftarrow>tsm_files w dir. length (invalid_key_indices (projr (tsmReader w p)))))
          (u_total ?v + (\<Sum>p\<leftarrow>tsm_files w dir. KeyCount (projr (tsmReader w p))))]"
    using verifyUTF8_run_ok [OF ok _ R, of ?v verbose_flag] by simp
  then have both: "nbad = (\<Sum>p\<leftarrow>tsm_files w dir. length (invalid_key_indices (projr (tsmReader w p))))
      \<and> ntotal = (\<Sum>p\<leftarrow>tsm_files w dir. KeyCount (projr (tsmReader w p)))"
    using summary summary_notin_utf8_reports [of nbad ntotal "\<lambda>p. projr (tsmReader w p)" "tsm_files w dir"]
    by (simp add: run split: if_splits)
  show "nbad = (\<Sum>p\<leftarrow>tsm_files w dir. length (invalid_key_indices (projr (tsmReader w p))))"
    using both by simp
  show "ntotal = (\<Sum>p\<leftarrow>tsm_files w dir. KeyCount (projr (tsmReader w p)))"
    using both by simp
qed

lemma tsmReader_Inr_iff:
  "tsmReader w p = Inr r \<longleftrightarrow> os_OpenFile w p = None \<and> NewTSMReader w p = Inr r"
  by (auto simp add: tsmReader_def split: option.splits sum.splits)

lemma tsmReader_Inl_iff:
  "tsmReader w p = Inl e \<longleftrightarrow>
     os_OpenFile w p = Some e \<or> (os_OpenFile w p = None \<and> NewTSMReader w p = Inl e)"
  by (auto simp add: tsmReader_def split: option.splits sum.splits)

lemma tsmReader_fails_iff:
  "(\<exists>e. tsmReader w p = Inl e) \<longleftrightarrow>
     os_OpenFile w p \<noteq> None \<or> (\<exists>e. NewTSMReader w p = Inl e)"
  by (auto simp add: tsmReader_def split: option.splits sum.splits)

text \<open>
  C3, as amended. With \<^verbatim>\<open>--check-utf8\<close> the command returns a non-nil error exactly when
  the traversal of the directory fails, or one of the discovered files cannot be opened
  (\<^verbatim>\<open>os.OpenFile\<close> returns an error) or cannot be parsed (\<^verbatim>\<open>tsm1.NewTSMReader\<close> returns
  an error), or some key of a file that opens and parses is not valid UTF-8. So when the
  traversal succeeds and every file opens and parses, it exits non-zero if and only if
  some key is invalid, and exits zero when every key is valid.
\<close>

theorem verify_tsm_utf8_exit_status:
  "fst (verify_tsm w dir True verbose_flag) \<noteq> None \<longleftrightarrow>
     \<not> walk_ok w dir
     \<or> (\<exists>p\<in>set (tsm_files w dir).
           os_OpenFile w p \<noteq> None \<or> (\<exists>e. NewTSMReader w p = Inl e))
     \<or> (\<exists>p\<in>set (tsm_files w dir). \<exists>r. os_OpenFile w p = None \<and> NewTSMReader w p = Inr r
           \<and> (\<exists>k\<in>set (index_keys r). \<not> utf8_Valid k))"
proof (cases "walk_ok w dir")
  case False
  then obtain e where "verify_tsm w dir True verbose_flag = (Some e, [])"
    using verifyUTF8_run_walk_failed [of w dir] by (auto simp add: verify_tsm_utf8)
  then show ?thesis using False by simp
next
  case ok: True
  let ?v = "\<lparr>v_files = [], v_f = [], u_totalErrors = 0, u_total = 0\<rparr>"
  show ?thesis
  proof (cases "\<forall>p\<in>set (tsm_files w dir). \<exists>r. tsmReader w p = Inr r")
    case False
    then obtain pre f post e where s: "tsm_files w dir = pre @ f # post" "tsmReader w f = Inl e"
      "\<forall>p\<in>set pre. tsmReader w p = Inr (projr (tsmReader w p))"
      using first_unopened by blast
    have "fst (verifyUTF8_run w ?v dir verbose_flag) = Some e"
      using verifyUTF8_run_abort [OF ok _ s(1) s(3) s(2), of ?v verbose_flag] by simp
    moreover have "os_OpenFile w f \<noteq> None \<or> (\<exists>e. NewTSMReader w f = Inl e)"
      using s(2) tsmReader_fails_iff [of w f] by blast
    then have "\<exists>p\<in>set (tsm_files w dir).
        os_OpenFile w p \<noteq> None \<or> (\<exists>e. NewTSMReader w p = Inl e)"
      using s(1) by auto
    ultimately show ?thesis by (simp add: verify_tsm_utf8)
  next
    case True
    then have R: "\<forall>p\<in>set (tsm_files w dir). tsmReader w p = Inr (projr (tsmReader w p))"
      by auto
    have none_fail: "\<not> (\<exists>p\<in>set (tsm_files w dir).
        os_OpenFile w p \<noteq> None \<or> (\<exists>e. NewTSMReader w p = Inl e))"
    proof
      assume "\<exists>p\<in>set (tsm_files w dir).
        os_OpenFile w p \<noteq> None \<or> (\<exists>e. NewTSMReader w p = Inl e)"
      then obtain p e where "p \<in> set (tsm_files w dir)" "tsmReader w p = Inl e"
        using tsmReader_fails_iff by blast
      then show False using True by auto
    qed
    have "fst (verifyUTF8_run w ?v dir verbose_flag) \<noteq> None \<longleftrightarrow>
        (\<exists>p\<in>set (tsm_files w dir). invalid_key_indices (projr (tsmReader w p)) \<noteq> [])"
      using verifyUTF8_run_ok [OF ok _ R, of ?v verbose_flag]
      by (simp add: sum_list_positive)
    also have "\<dots> \<longleftrightarrow> (\<exists>p\<in>set (tsm_files w dir). \<exists>r. tsmReader w p = Inr r
           \<and> (\<exists>k\<in>set (index_keys r). \<not> utf8_Valid k))"
      using R by (simp add: invalid_key_indices_empty) (metis sum.sel(2))
    also have "\<dots> \<longleftrightarrow> (\<exists>p\<in>set (tsm_files w dir). \<exists>r. os_OpenFile w p = None
           \<and> NewTSMReader w p = Inr r \<and> (\<exists>k\<in>set (index_keys r). \<not> utf8_Valid k))"
      by (simp add: tsmReader_Inr_iff)
    finally show ?thesis using ok none_fail by (simp add: verify_tsm_utf8)
  qed
qed

lemma invalid_key_indices_examples:
  "invalid_key_indices \<lparr>index_keys = [cpu_key], blocks = bs\<rparr> = []"
  "invalid_key_indices \<lparr>index_keys = [cpu_key, [0xFF]], blocks = bs\<rparr> = [1]"
  by (simp_all add: invalid_key_indices_def KeyCount_def KeyAt_def cpu_key_def first_def
      upt_rec [of 0] upt_rec [of 1])

lemma utf8_Valid_cpu_key: "utf8_Valid cpu_key"
  by (simp add: cpu_key_def)

theorem verify_tsm_utf8_counts_witness:
  "walk_ok fs_two_files ''engine''
   \<and> snd (verify_tsm fs_two_files ''engine'' True True) =
       [Healthy ''engine/1.tsm'', KeyNotValidUTF8 ''engine/2.tsm'' 1, InvalidKeys 1 3]
   \<and> InvalidKeys 1 3 \<in> set (snd (verify_tsm fs_two_files ''engine'' True True))"
  using verify_tsm_utf8_counts [of fs_two_files "''engine''"
      "\<lambda>p. projr (tsmReader fs_two_files p)" True 1 3]
  by (simp add: walk_ok_fs_two_files tsm_files_fs_two_files tsmReader_fs_two_files
      invalid_key_indices_examples utf8_file_report_def KeyCount_def)

lemma tsm_files_fs_unreadable:
  "tsm_files fs_unreadable ''engine'' = [''engine/1.tsm'', ''engine/2.tsm'', ''engine/3.tsm'']"
  by (simp add: tsm_files_def fs_unreadable_def Ext_def)

lemma walk_ok_fs_unreadable: "walk_ok fs_unreadable ''engine''"
  by (simp add: walk_ok_def fs_unreadable_def)

lemma tsmReader_fs_unreadable:
  "tsmReader fs_unreadable ''engine/1.tsm'' = Inr \<lparr>index_keys = [cpu_key], blocks = [corrupted_block]\<rparr>"
  "tsmReader fs_unreadable ''engine/2.tsm'' = Inl (errors_New ''permission denied'')"
  by (simp_all add: tsmReader_def fs_unreadable_def)

lemma NewTSMReader_fs_unreadable:
  "NewTSMReader fs_unreadable p = Inr \<lparr>index_keys = [cpu_key], blocks = [corrupted_block]\<rparr>"
  by (simp add: fs_unreadable_def)

text \<open>
  C3, as stated (a non-nil error if and only if some key is not valid UTF-8), fails: a
  file that cannot be opened, or a directory that cannot be traversed, makes the
  command return an error although every key is valid UTF-8.
\<close>

theorem verify_tsm_utf8_unreadable_file:
  "fst (verify_tsm fs_unreadable ''engine'' True False) = Some (errors_New ''permission denied'')
   \<and> list_all utf8_Valid (all_keys fs_unreadable ''engine'')
   \<and> fst (verify_tsm fs_missing ''engine'' True False) =
       Some (fmt_Errorf ''could not load storage files (use -dir for custom storage root): ''
              (errors_New ''no such file or directory''))
   \<and> all_keys fs_missing ''engine'' = []"
proof -
  have "verifyUTF8_run fs_unreadable \<lparr>v_files = [], v_f = [], u_totalErrors = 0, u_total = 0\<rparr>
      ''engine'' False = (Some (errors_New ''permission denied''), [])"
    using verifyUTF8_run_abort [of fs_unreadable "''engine''"
        "\<lparr>v_files = [], v_f = [], u_totalErrors = 0, u_total = 0\<rparr>"
        "[''engine/1.tsm'']" "''engine/2.tsm''" "[''engine/3.tsm'']"
        "\<lambda>p. \<lparr>index_keys = [cpu_key], blocks = [corrupted_block]\<rparr>"
        "errors_New ''permission denied''" False]
    by (simp add: walk_ok_fs_unreadable tsm_files_fs_unreadable tsmReader_fs_unreadable)
  moreover have "list_all utf8_Valid (all_keys fs_unreadable ''engine'')"
    by (simp add: all_keys_def tsm_files_fs_unreadable NewTSMReader_fs_unreadable utf8_Valid_cpu_key)
  moreover have "verify_tsm fs_missing ''engine'' True False =
      (Some (fmt_Errorf ''could not load storage files (use -dir for custom storage root): ''
              (errors_New ''no such file or directory'')), [])"
    by (simp add: verify_tsm_def verifyUTF8_run_def loadFiles_def fs_missing_def loadFiles_visit_def)
  moreover have "all_keys fs_missing ''engine'' = []"
    by (simp add: all_keys_def tsm_files_def fs_missing_def Ext_def)
  ultimately show ?thesis by (simp add: verify_tsm_utf8)
qed

lemma fs_unparsable_facts:
  "walk_ok fs_unparsable ''engine''"
  "tsm_files fs_unparsable ''engine'' = [''engine/1.tsm'', ''engine/2.tsm'', ''engine/3.tsm'']"
  "os_OpenFile fs_unparsable p = None"
  "NewTSMReader fs_unparsable ''engine/1.tsm'' = Inr \<lparr>index_keys = [cpu_key], blocks = [corrupted_block]\<rparr>"
  "NewTSMReader fs_unparsable ''engine/2.tsm'' = Inl (errors_New ''init: error reading magic number of file'')"
  "NewTSMReader fs_unparsable ''engine/3.tsm'' = Inr \<lparr>index_keys = [cpu_key], blocks = [corrupted_block]\<rparr>"
  by (simp_all add: walk_ok_def tsm_files_def fs_unparsable_def Ext_def)

lemma fs_unreadable_facts:
  "os_OpenFile fs_unreadable ''engine/1.tsm'' = None"
  "os_OpenFile fs_unreadable ''engine/2.tsm'' = Some (errors_New ''permission denied'')"
  "os_OpenFile fs_unreadable ''engine/3.tsm'' = None"
  by (simp_all add: fs_unreadable_def)

lemma fs_two_files_facts:
  "os_OpenFile fs_two_files p = None"
  "NewTSMReader fs_two_files ''engine/1.tsm'' =
     Inr \<lparr>index_keys = [cpu_key], blocks = [sound_block, corrupted_block]\<rparr>"
  "NewTSMReader fs_two_files ''engine/2.tsm'' =
     Inr \<lparr>index_keys = [cpu_key, [0xFF]], blocks = [sound_block]\<rparr>"
  by (simp_all add: fs_two_files_def)

lemma fs_corrupted_facts:
  "os_OpenFile fs_corrupted p = None"
  "NewTSMReader fs_corrupted p = Inr \<lparr>index_keys = [cpu_key], blocks = [corrupted_block]\<rparr>"
  by (simp_all add: fs_corrupted_def)

theorem verify_tsm_utf8_exit_status_witness:
  "walk_ok fs_two_files ''engine''
   \<and> NewTSMReader fs_two_files ''engine/2.tsm'' =
       Inr \<lparr>index_keys = [cpu_key, [0xFF]], blocks = [sound_block]\<rparr>
   \<and> \<not> utf8_Valid [0xFF]
   \<and> fst (verify_tsm fs_two_files ''engine'' True False) \<noteq> None
   \<and> walk_ok fs_corrupted ''engine''
   \<and> fst (verify_tsm fs_corrupted ''engine'' True False) = None
   \<and> NewTSMReader fs_unparsable ''engine/2.tsm'' =
       Inl (errors_New ''init: error reading magic number of file'')
   \<and> fst (verify_tsm fs_unparsable ''engine'' True False) \<noteq> None
   \<and> os_OpenFile fs_unreadable ''engine/2.tsm'' = Some (errors_New ''permission denied'')
   \<and> fst (verify_tsm fs_unreadable ''engine'' True False) \<noteq> None"
  using verify_tsm_utf8_exit_status [of fs_two_files "''engine''" False]
    verify_tsm_utf8_exit_status [of fs_corrupted "''engine''" False]
    verify_tsm_utf8_exit_status [of fs_unparsable "''engine''" False]
    verify_tsm_utf8_exit_status [of fs_unreadable "''engine''" False]
  by (simp add: walk_ok_fs_two_files tsm_files_fs_two_files fs_two_files_facts first_def
      walk_ok_fs_corrupted tsm_files_fs_corrupted fs_corrupted_facts utf8_Valid_cpu_key
      fs_unparsable_facts walk_ok_fs_unreadable tsm_files_fs_unreadable fs_unreadable_facts)

text \<open>
  C10. In both modes, when a discovered file cannot be opened (\<^verbatim>\<open>os.OpenFile\<close> returns an
  error) or cannot be parsed (\<^verbatim>\<open>tsm1.NewTSMReader\<close> returns an error), the run returns
  that error at once: what has been printed is the verbose lines of the files before it
  and nothing else, so no file after it is verified and no summary line is printed. The
  files before it may hold any number of broken blocks or invalid keys.
\<close>

theorem verify_tsm_aborts_on_unopened_file:
  assumes "walk_ok w dir" and "tsm_files w dir = pre @ f # post"
    and "\<forall>p\<in>set pre. os_OpenFile w p = None \<and> NewTSMReader w p = Inr (R p)"
    and "os_OpenFile w f = Some e \<or> (os_OpenFile w f = None \<and> NewTSMReader w f = Inl e)"
  shows "verify_tsm w dir False verbose_flag =
      (Some e, if verbose_flag then concat (map (\<lambda>p. checksums_file_report p (R p)) pre) else [])
    \<and> verify_tsm w dir True verbose_flag =
      (Some e, if verbose_flag then concat (map (\<lambda>p. utf8_file_report p (R p)) pre) else [])
    \<and> (\<forall>a b. BrokenBlocks a b \<notin> set (snd (verify_tsm w dir False verbose_flag)))
    \<and> (\<forall>a b. InvalidKeys a b \<notin> set (snd (verify_tsm w dir True verbose_flag)))"
proof -
  have opened: "\<forall>p\<in>set pre. tsmReader w p = Inr (R p)"
    using assms(3) by (simp add: tsmReader_Inr_iff)
  have failed: "tsmReader w f = Inl e"
    using assms(4) by (simp add: tsmReader_Inl_iff)
  have c: "verify_tsm w dir False verbose_flag =
      (Some e, if verbose_flag then concat (map (\<lambda>p. checksums_file_report p (R p)) pre) else [])"
    using verifyChecksums_run_abort [OF assms(1) _ assms(2) opened failed]
    by (simp add: verify_tsm_checksums)
  have u: "verify_tsm w dir True verbose_flag =
      (Some e, if verbose_flag then concat (map (\<lambda>p. utf8_file_report p (R p)) pre) else [])"
    using verifyUTF8_run_abort [OF assms(1) _ assms(2) opened failed]
    by (simp add: verify_tsm_utf8)
  have "BrokenBlocks a b \<notin> set (snd (verify_tsm w dir False verbose_flag))" for a b
    using BrokenBlocks_notin_reports [of a b R pre] by (simp add: c)
  moreover have "InvalidKeys a b \<notin> set (snd (verify_tsm w dir True verbose_flag))" for a b
    using summary_notin_utf8_reports [of a b R pre] by (simp add: u)
  ultimately show ?thesis using c u by blast
qed

theorem verify_tsm_aborts_on_unopened_file_witness:
  "walk_ok fs_unreadable ''engine''
   \<and> tsm_files fs_unreadable ''engine'' = [''engine/1.tsm''] @ ''engine/2.tsm'' # [''engine/3.tsm'']
   \<and> os_OpenFile fs_unreadable ''engine/2.tsm'' = Some (errors_New ''permission denied'')
   \<and> verify_tsm fs_unreadable ''engine'' False True =
       (Some (errors_New ''permission denied''),
        [ChecksumMismatch ''engine/1.tsm'' 0xE8B7BE42 0xE8B7BE43 cpu_key 0])
   \<and> verify_tsm fs_unreadable ''engine'' True True =
       (Some (errors_New ''permission denied''), [Healthy ''engine/1.tsm''])
   \<and> walk_ok fs_unparsable ''engine''
   \<and> tsm_files fs_unparsable ''engine'' = [''engine/1.tsm''] @ ''engine/2.tsm'' # [''engine/3.tsm'']
   \<and> os_OpenFile fs_unparsable ''engine/2.tsm'' = None
   \<and> NewTSMReader fs_unparsable ''engine/2.tsm'' =
       Inl (errors_New ''init: error reading magic number of file'')
   \<and> verify_tsm fs_unparsable ''engine'' False True =
       (Some (errors_New ''init: error reading magic number of file''),
        [ChecksumMismatch ''engine/1.tsm'' 0xE8B7BE42 0xE8B7BE43 cpu_key 0])
   \<and> verify_tsm fs_unparsable ''engine'' True False =
       (Some (errors_New ''init: error reading magic number of file''), [])"
  using verify_tsm_aborts_on_unopened_file [of fs_unreadable "''engine''"
      "[''engine/1.tsm'']" "''engine/2.tsm''" "[''engine/3.tsm'']"
      "\<lambda>p. \<lparr>index_keys = [cpu_key], blocks = [corrupted_block]\<rparr>"
      "errors_New ''permission denied''" True]
    verify_tsm_aborts_on_unopened_file [of fs_unparsable "''engine''"
      "[''engine/1.tsm'']" "''engine/2.tsm''" "[''engine/3.tsm'']"
      "\<lambda>p. \<lparr>index_keys = [cpu_key], blocks = [corrupted_block]\<rparr>"
      "errors_New ''init: error reading magic number of file''" True]
    verify_tsm_aborts_on_unopened_file [of fs_unparsable "''engine''"
      "[''engine/1.tsm'']" "''engine/2.tsm''" "[''engine/3.tsm'']"
      "\<lambda>p. \<lparr>index_keys = [cpu_key], blocks = [corrupted_block]\<rparr>"
      "errors_New ''init: error reading magic number of file''" False]
  by (simp add: walk_ok_fs_unreadable tsm_files_fs_unreadable fs_unreadable_facts
      NewTSMReader_fs_unreadable fs_unparsable_facts
      checksums_file_report_def utf8_file_report_def invalid_key_indices_examples
      broken_corrupted_block block_report_corrupted_block)

section \<open>Tombstone files\<close>

lemma WalkDir_verifier_loadFiles_ok:
  "list_all (\<lambda>entry. snd entry = None) entries \<Longrightarrow>
   WalkDir entries verifier_loadFiles_visit files =
     (None, files @ filter (\<lambda>p. Ext p = ''.tombstone'') (map fst entries))"
  by (induction entries arbitrary: files)
     (auto simp add: verifier_loadFiles_visit_def TombstoneFileExtension_def)

lemma verifier_loadFiles_ok:
  "walk_ok w (tv_path v) \<Longrightarrow>
   verifier_loadFiles w v = (None, v\<lparr>tv_files := tv_files v @ tombstone_files w (tv_path v)\<rparr>)"
  by (simp add: verifier_loadFiles_def walk_ok_def tombstone_files_def WalkDir_verifier_loadFiles_ok)

lemma Walk_entries_verifier_visit:
  "Walk_entries ts (verifier_visit verbosity) (n, out) =
     (None, n + length ts, out @ entries_report verbosity n ts)"
  by (induction ts arbitrary: n out)
     (simp_all add: verifier_visit_def entry_report_def Let_def)

lemma Walk_verifier_visit:
  "Walk t (verifier_visit verbosity) (0, out) =
     (ts_err t, length (ts_entries t), out @ entries_report verbosity 0 (ts_entries t))"
  by (simp add: Walk_def Walk_entries_verifier_visit)

lemma verifier_loop_eq:
  "tv_files v = fs \<Longrightarrow>
   \<exists>v'. verifier_loop w (v, failed, found, out) =
     (v', failed \<or> (\<exists>p\<in>set fs. walk_fails w p), found \<or> fs \<noteq> [],
      out @ concat (map (tombstone_file_report (tv_verbosity v) w) fs))"
proof (induction fs arbitrary: v failed found out)
  case Nil
  then show ?case
    by (subst verifier_loop.simps) (simp add: verifier_next_def)
next
  case (Cons p fs)
  let ?v0 = "v\<lparr>tv_f := p, tv_files := fs\<rparr>"
  let ?T = "NewTombstoner w p"
  let ?out1 = "if tv_verbosity v > quiet then out @ [Verifying p] else out"
  have nxt: "verifier_next v = (True, ?v0)"
    using Cons.prems by (simp add: verifier_next_def)
  have files: "tv_files ?v0 = fs" by simp
  show ?case
  proof (cases "HasTombstones ?T")
    case False
    have step: "verifier_loop w (v, failed, found, out) =
        verifier_loop w (?v0, failed, True, ?out1 @ [HasNoTombstoneEntries p])"
      using False by (subst verifier_loop.simps) (simp add: nxt Let_def)
    obtain v' where "verifier_loop w (?v0, failed, True, ?out1 @ [HasNoTombstoneEntries p]) =
        (v', failed \<or> (\<exists>p\<in>set fs. walk_fails w p), True \<or> fs \<noteq> [],
         (?out1 @ [HasNoTombstoneEntries p]) @ concat (map (tombstone_file_report (tv_verbosity ?v0) w) fs))"
      using Cons.IH [OF files] by blast
    moreover have "tombstone_file_report (tv_verbosity v) w p =
        (if tv_verbosity v > quiet then [Verifying p] else []) @ [HasNoTombstoneEntries p]"
      using False by (simp add: tombstone_file_report_def)
    moreover have "\<not> walk_fails w p"
      using False by (simp add: walk_fails_def)
    ultimately show ?thesis
      by (intro exI [of _ v']) (simp add: step)
  next
    case True
    show ?thesis
    proof (cases "ts_err ?T")
      case None
      let ?out2 = "?out1 @ entries_report (tv_verbosity v) 0 (ts_entries ?T)
          @ [Completed p (length (ts_entries ?T))]"
      have step: "verifier_loop w (v, failed, found, out) = verifier_loop w (?v0, failed, True, ?out2)"
        using True None by (subst verifier_loop.simps) (simp add: nxt Let_def Walk_verifier_visit)
      obtain v' where "verifier_loop w (?v0, failed, True, ?out2) =
          (v', failed \<or> (\<exists>p\<in>set fs. walk_fails w p), True \<or> fs \<noteq> [],
           ?out2 @ concat (map (tombstone_file_report (tv_verbosity ?v0) w) fs))"
        using Cons.IH [OF files] by blast
      moreover have "tombstone_file_report (tv_verbosity v) w p =
          (if tv_verbosity v > quiet then [Verifying p] else [])
          @ entries_report (tv_verbosity v) 0 (ts_entries ?T) @ [Completed p (length (ts_entries ?T))]"
        using True None by (simp add: tombstone_file_report_def)
      moreover have "\<not> walk_fails w p"
        using None by (simp add: walk_fails_def)
      ultimately show ?thesis
        by (intro exI [of _ v']) (simp add: step)
    next
      case (Some e)
      let ?out2 = "?out1 @ entries_report (tv_verbosity v) 0 (ts_entries ?T)
          @ [FailedToWalk p e (length (ts_entries ?T))]"
      have step: "verifier_loop w (v, failed, found, out) = verifier_loop w (?v0, True, True, ?out2)"
        using True Some by (subst verifier_loop.simps) (simp add: nxt Let_def Walk_verifier_visit)
      obtain v' where "verifier_loop w (?v0, True, True, ?out2) =
          (v', True \<or> (\<exists>p\<in>set fs. walk_fails w p), True \<or> fs \<noteq> [],
           ?out2 @ concat (map (tombstone_file_report (tv_verbosity ?v0) w) fs))"
        using Cons.IH [OF files] by blast
      moreover have "tombstone_file_report (tv_verbosity v) w p =
          (if tv_verbosity v > quiet then [Verifying p] else [])
          @ entries_report (tv_verbosity v) 0 (ts_entries ?T) @ [FailedToWalk p e (length (ts_entries ?T))]"
        using True Some by (simp add: tombstone_file_report_def)
      moreover have "walk_fails w p"
        using True Some by (simp add: walk_fails_def)
      ultimately show ?thesis
        by (intro exI [of _ v']) (simp add: step)
    qed
  qed
qed

lemma verifier_run_ok:
  assumes "walk_ok w (tv_path v)" and "tv_files v = []"
  shows "verifier_run w v =
     (if \<exists>p\<in>set (tombstone_files w (tv_path v)). walk_fails w p
      then Some (errors_New ''failed tombstone verification'') else None,
      concat (map (tombstone_file_report (tv_verbosity v) w) (tombstone_files w (tv_path v)))
      @ (if tombstone_files w (tv_path v) = [] then [NoTombstoneFilesFound] else []))"
proof -
  let ?v0 = "v\<lparr>tv_files := tombstone_files w (tv_path v)\<rparr>"
  have load: "verifier_loadFiles w v = (None, ?v0)"
    using assms by (simp add: verifier_loadFiles_ok)
  obtain v' where "verifier_loop w (?v0, False, False, []) =
     (v', False \<or> (\<exists>p\<in>set (tombstone_files w (tv_path v)). walk_fails w p),
      False \<or> tombstone_files w (tv_path v) \<noteq> [],
      [] @ concat (map (tombstone_file_report (tv_verbosity ?v0) w) (tombstone_files w (tv_path v))))"
    using verifier_loop_eq [of ?v0 "tombstone_files w (tv_path v)" w False False "[]"] by auto
  then show ?thesis
    by (auto simp add: verifier_run_def load)
qed

lemma verify_tombstone_ok:
  assumes "walk_ok w dir"
  shows "verify_tombstone w dir v_flag vv_flag =
     (if \<exists>p\<in>set (tombstone_files w dir). walk_fails w p
      then Some (errors_New ''failed tombstone verification'') else None,
      concat (map (tombstone_file_report (flags_verbosity v_flag vv_flag) w) (tombstone_files w dir))
      @ (if tombstone_files w dir = [] then [NoTombstoneFilesFound] else []))"
  using assms
    verifier_run_ok [of w "\<lparr>tv_path = dir, tv_verbosity = flags_verbosity v_flag vv_flag,
      tv_files = [], tv_f = []\<rparr>"]
  by (simp add: verify_tombstone_def)

lemma NoTombstoneFilesFound_notin_entries_report:
  "NoTombstoneFilesFound \<notin> set (entries_report verbosity n ts)"
  by (induction ts arbitrary: n) (auto simp add: entry_report_def split: if_splits)

lemma NoTombstoneFilesFound_notin_reports:
  "NoTombstoneFilesFound \<notin> set (concat (map (tombstone_file_report verbosity w) fs))"
  by (auto simp add: tombstone_file_report_def NoTombstoneFilesFound_notin_entries_report
      split: if_splits option.splits)

lemma last_line_in_tombstone_file_report:
  "HasTombstones (NewTombstoner w p) \<Longrightarrow>
   (case ts_err (NewTombstoner w p) of
      Some e \<Rightarrow> FailedToWalk p e (length (ts_entries (NewTombstoner w p)))
    | None \<Rightarrow> Completed p (length (ts_entries (NewTombstoner w p))))
   \<in> set (tombstone_file_report verbosity w p)"
  by (simp add: tombstone_file_report_def)

lemma in_reports:
  "p \<in> set fs \<Longrightarrow> m \<in> set (tombstone_file_report verbosity w p) \<Longrightarrow>
   m \<in> set (concat (map (tombstone_file_report verbosity w) fs))"
  by auto

lemma first_error_None: "first_error entries = None \<longleftrightarrow> list_all (\<lambda>entry. snd entry = None) entries"
  by (induction entries rule: first_error.induct) simp_all

lemma walk_error_None: "walk_error w dir = None \<longleftrightarrow> walk_ok w dir"
  by (simp add: walk_error_def walk_ok_def first_error_None)

lemma WalkDir_verifier_loadFiles_first_error:
  "first_error entries \<noteq> None \<Longrightarrow>
   \<exists>files'. WalkDir entries verifier_loadFiles_visit files = (first_error entries, files')"
  by (induction entries arbitrary: files rule: first_error.induct)
     (auto simp add: verifier_loadFiles_visit_def)

lemma verify_tombstone_walk_error:
  assumes "\<not> walk_ok w dir"
  shows "verify_tombstone w dir v_flag vv_flag = (walk_error w dir, [])"
proof -
  let ?v = "\<lparr>tv_path = dir, tv_verbosity = flags_verbosity v_flag vv_flag, tv_files = [], tv_f = []\<rparr>"
  have err: "first_error (walk w dir) \<noteq> None"
    using assms by (simp add: walk_error_None [unfolded walk_error_def])
  then obtain e where e: "first_error (walk w dir) = Some e" by blast
  obtain files' where "WalkDir (walk w dir) verifier_loadFiles_visit [] = (Some e, files')"
    using WalkDir_verifier_loadFiles_first_error [OF err, of "[]"] e by auto
  then show ?thesis
    by (simp add: verify_tombstone_def verifier_run_def verifier_loadFiles_def walk_error_def e)
qed

text \<open>
  C5, as amended. When the traversal of the engine path fails, verify-tombstone returns
  the traversal's first error and walks no tombstone file: it prints nothing, also for
  the files met before the failure. When the traversal succeeds, it visits every
  \<^verbatim>\<open>.tombstone\<close> file under the engine path, in order; for each file that has tombstones
  it counts the entries and prints the count (with the completion line, or with the
  failure line). In every case it returns a non-nil error exactly when the traversal of
  the engine path fails or the walk of at least one tombstone file fails.
\<close>

theorem verify_tombstone_exit_status:
  "(fst (verify_tombstone w dir v_flag vv_flag) \<noteq> None \<longleftrightarrow>
      \<not> walk_ok w dir \<or> (\<exists>p\<in>set (tombstone_files w dir). walk_fails w p))
   \<and> (\<not> walk_ok w dir \<longrightarrow>
        walk_error w dir \<noteq> None
        \<and> verify_tombstone w dir v_flag vv_flag = (walk_error w dir, []))
   \<and> (walk_ok w dir \<longrightarrow>
        snd (verify_tombstone w dir v_flag vv_flag) =
          concat (map (tombstone_file_report (flags_verbosity v_flag vv_flag) w)
            (tombstone_files w dir))
          @ (if tombstone_files w dir = [] then [NoTombstoneFilesFound] else []))
   \<and> (walk_ok w dir \<and> p \<in> set (tombstone_files w dir) \<and> HasTombstones (NewTombstoner w p)
        \<and> ts_err (NewTombstoner w p) = None \<longrightarrow>
        Completed p (length (ts_entries (NewTombstoner w p)))
          \<in> set (snd (verify_tombstone w dir v_flag vv_flag)))"
proof (intro conjI impI)
  show "fst (verify_tombstone w dir v_flag vv_flag) \<noteq> None \<longleftrightarrow>
      \<not> walk_ok w dir \<or> (\<exists>p\<in>set (tombstone_files w dir). walk_fails w p)"
  proof (cases "walk_ok w dir")
    case True
    then show ?thesis by (simp add: verify_tombstone_ok)
  next
    case False
    then show ?thesis
      by (simp add: verify_tombstone_walk_error walk_error_None)
  qed
  show "walk_error w dir \<noteq> None" if "\<not> walk_ok w dir"
    using that by (simp add: walk_error_None)
  show "verify_tombstone w dir v_flag vv_flag = (walk_error w dir, [])" if "\<not> walk_ok w dir"
    using that by (rule verify_tombstone_walk_error)
  show "snd (verify_tombstone w dir v_flag vv_flag) =
          concat (map (tombstone_file_report (flags_verbosity v_flag vv_flag) w)
            (tombstone_files w dir))
          @ (if tombstone_files w dir = [] then [NoTombstoneFilesFound] else [])"
    if "walk_ok w dir"
    using that by (simp add: verify_tombstone_ok)
  show "Completed p (length (ts_entries (NewTombstoner w p)))
          \<in> set (snd (verify_tombstone w dir v_flag vv_flag))"
    if h: "walk_ok w dir \<and> p \<in> set (tombstone_files w dir) \<and> HasTombstones (NewTombstoner w p)
        \<and> ts_err (NewTombstoner w p) = None"
  proof -
    have "Completed p (length (ts_entries (NewTombstoner w p)))
        \<in> set (tombstone_file_report (flags_verbosity v_flag vv_flag) w p)"
      using h last_line_in_tombstone_file_report [of w p "flags_verbosity v_flag vv_flag"] by simp
    then have "Completed p (length (ts_entries (NewTombstoner w p)))
        \<in> set (concat (map (tombstone_file_report (flags_verbosity v_flag vv_flag) w)
            (tombstone_files w dir)))"
      using h in_reports by blast
    then show ?thesis using h by (simp add: verify_tombstone_ok)
  qed
qed

text \<open>
  C6. When the walk of a tombstone file fails, \<open>Walk\<close> returns the error to \<^verbatim>\<open>run\<close>
  with the visitor's counter at the number of entries processed before the failure, and
  the command prints the file, the error and that count as the last okay entry, and
  exits non-zero.
\<close>

theorem failed_walk_reports_last_okay_entry:
  assumes "walk_ok w dir" and "p \<in> set (tombstone_files w dir)"
    and "HasTombstones (NewTombstoner w p)" and "ts_err (NewTombstoner w p) = Some e"
  shows "fst (Walk (NewTombstoner w p) (verifier_visit verbosity) (0, out)) = Some e
    \<and> fst (snd (Walk (NewTombstoner w p) (verifier_visit verbosity) (0, out))) =
        length (ts_entries (NewTombstoner w p))
    \<and> FailedToWalk p e (length (ts_entries (NewTombstoner w p)))
        \<in> set (snd (verify_tombstone w dir v_flag vv_flag))
    \<and> fst (verify_tombstone w dir v_flag vv_flag) =
        Some (errors_New ''failed tombstone verification'')"
proof -
  have "FailedToWalk p e (length (ts_entries (NewTombstoner w p)))
      \<in> set (tombstone_file_report (flags_verbosity v_flag vv_flag) w p)"
    using assms(3,4) last_line_in_tombstone_file_report [of w p "flags_verbosity v_flag vv_flag"]
    by simp
  then have "FailedToWalk p e (length (ts_entries (NewTombstoner w p)))
      \<in> set (concat (map (tombstone_file_report (flags_verbosity v_flag vv_flag) w)
          (tombstone_files w dir)))"
    using assms(2) in_reports by blast
  moreover have "\<exists>p\<in>set (tombstone_files w dir). walk_fails w p"
    using assms(2,3,4) by (auto simp add: walk_fails_def)
  ultimately show ?thesis
    using assms(1,4) by (simp add: verify_tombstone_ok Walk_verifier_visit)
qed

text \<open>
  C7. When neither the traversal nor the walk of any tombstone file fails, the command
  returns no error. With no tombstone file under the engine path it prints only the line
  saying that none was found, and that line is printed in no other case; for every file
  without tombstone entries it prints the line saying so.
\<close>

theorem no_tombstones_is_not_an_error:
  assumes "walk_ok w dir" and "\<forall>p\<in>set (tombstone_files w dir). \<not> walk_fails w p"
  shows "fst (verify_tombstone w dir v_flag vv_flag) = None
    \<and> (tombstone_files w dir = [] \<longrightarrow>
         snd (verify_tombstone w dir v_flag vv_flag) = [NoTombstoneFilesFound])
    \<and> (NoTombstoneFilesFound \<in> set (snd (verify_tombstone w dir v_flag vv_flag)) \<longleftrightarrow>
         tombstone_files w dir = [])
    \<and> (\<forall>p\<in>set (tombstone_files w dir). \<not> HasTombstones (NewTombstoner w p) \<longrightarrow>
         HasNoTombstoneEntries p \<in> set (snd (verify_tombstone w dir v_flag vv_flag)))"
proof (intro conjI ballI impI)
  note run = verify_tombstone_ok [OF assms(1), of v_flag vv_flag]
  show "fst (verify_tombstone w dir v_flag vv_flag) = None"
    using assms(2) by (simp add: run)
  show "snd (verify_tombstone w dir v_flag vv_flag) = [NoTombstoneFilesFound]"
    if "tombstone_files w dir = []"
    using that by (simp add: run)
  show "NoTombstoneFilesFound \<in> set (snd (verify_tombstone w dir v_flag vv_flag)) \<longleftrightarrow>
         tombstone_files w dir = []"
    using NoTombstoneFilesFound_notin_reports [of "flags_verbosity v_flag vv_flag" w "tombstone_files w dir"]
    by (simp add: run)
  show "HasNoTombstoneEntries p \<in> set (snd (verify_tombstone w dir v_flag vv_flag))"
    if "p \<in> set (tombstone_files w dir)" and "\<not> HasTombstones (NewTombstoner w p)" for p
  proof -
    have "HasNoTombstoneEntries p \<in> set (tombstone_file_report (flags_verbosity v_flag vv_flag) w p)"
      using that(2) by (simp add: tombstone_file_report_def)
    then have "HasNoTombstoneEntries p
        \<in> set (concat (map (tombstone_file_report (flags_verbosity v_flag vv_flag) w)
            (tombstone_files w dir)))"
      using that(1) in_reports by blast
    then show ?thesis by (simp add: run)
  qed
qed

lemma fs_tombstones_facts:
  "walk_ok fs_tombstones ''engine''"
  "tombstone_files fs_tombstones ''engine'' = [''engine/1.tombstone'', ''engine/2.tombstone'']"
  "NewTombstoner fs_tombstones ''engine/1.tombstone'' = no_tombstones"
  "NewTombstoner fs_tombstones ''engine/2.tombstone'' =
     \<lparr>ts_has = True, ts_entries = [cpu_tombstone, cpu_tombstone], ts_err = None\<rparr>"
  by (simp_all add: walk_ok_def tombstone_files_def fs_tombstones_def Ext_def)

lemma fs_torn_tombstone_facts:
  "walk_ok fs_torn_tombstone ''engine''"
  "tombstone_files fs_torn_tombstone ''engine'' = [''engine/1.tombstone'', ''engine/2.tombstone'']"
  "NewTombstoner fs_torn_tombstone ''engine/1.tombstone'' =
     \<lparr>ts_has = True, ts_entries = [cpu_tombstone], ts_err = Some (errors_New ''unexpected EOF'')\<rparr>"
  "NewTombstoner fs_torn_tombstone ''engine/2.tombstone'' =
     \<lparr>ts_has = True, ts_entries = [cpu_tombstone, cpu_tombstone], ts_err = None\<rparr>"
  by (simp_all add: walk_ok_def tombstone_files_def fs_torn_tombstone_def Ext_def)

lemma fs_no_tombstones_facts:
  "walk_ok fs_no_tombstones ''engine''"
  "tombstone_files fs_no_tombstones ''engine'' = []"
  by (simp_all add: walk_ok_def tombstone_files_def fs_no_tombstones_def Ext_def)

lemma entry_report_quiet: "entry_report quiet n t = []"
  by (simp add: entry_report_def quiet_def verbose_def)

lemma flags_verbosity_quiet: "flags_verbosity False False = quiet"
  by (simp add: flags_verbosity_def)

lemma fs_partial_facts:
  "\<not> walk_ok fs_partial ''engine''"
  "walk_error fs_partial ''engine'' = Some (errors_New ''permission denied'')"
  "tombstone_files fs_partial ''engine'' = [''engine/1.tombstone'', ''engine/2.tombstone'']"
  by (simp_all add: walk_ok_def walk_error_def tombstone_files_def fs_partial_def Ext_def)

theorem verify_tombstone_exit_status_witness:
  "walk_ok fs_torn_tombstone ''engine''
   \<and> walk_fails fs_torn_tombstone ''engine/1.tombstone''
   \<and> fst (verify_tombstone fs_torn_tombstone ''engine'' False False) \<noteq> None
   \<and> snd (verify_tombstone fs_torn_tombstone ''engine'' False False) =
       [FailedToWalk ''engine/1.tombstone'' (errors_New ''unexpected EOF'') 1,
        Completed ''engine/2.tombstone'' 2]
   \<and> Completed ''engine/2.tombstone'' 2
       \<in> set (snd (verify_tombstone fs_torn_tombstone ''engine'' False False))
   \<and> walk_error fs_partial ''engine'' = Some (errors_New ''permission denied'')
   \<and> ''engine/1.tombstone'' \<in> set (tombstone_files fs_partial ''engine'')
   \<and> verify_tombstone fs_partial ''engine'' False False =
       (Some (errors_New ''permission denied''), [])"
  using verify_tombstone_exit_status [of fs_torn_tombstone "''engine''" False False
      "''engine/2.tombstone''"]
    verify_tombstone_exit_status [of fs_partial "''engine''" False False "''engine/1.tombstone''"]
  by (simp add: fs_torn_tombstone_facts fs_partial_facts walk_fails_def HasTombstones_def
      tombstone_file_report_def flags_verbosity_quiet entry_report_quiet)

text \<open>
  C5, as stated (a non-nil error if and only if the walk of some tombstone file fails),
  fails: when the engine path cannot be traversed the command returns the traversal's
  error, and no tombstone file was walked at all.
\<close>

theorem verify_tombstone_missing_directory:
  "fst (verify_tombstone fs_missing ''engine'' False False) =
     Some (errors_New ''no such file or directory'')
   \<and> tombstone_files fs_missing ''engine'' = []"
  by (simp add: verify_tombstone_def verifier_run_def verifier_loadFiles_def fs_missing_def
      verifier_loadFiles_visit_def tombstone_files_def Ext_def)

theorem failed_walk_reports_last_okay_entry_witness:
  "walk_ok fs_torn_tombstone ''engine''
   \<and> ''engine/1.tombstone'' \<in> set (tombstone_files fs_torn_tombstone ''engine'')
   \<and> HasTombstones (NewTombstoner fs_torn_tombstone ''engine/1.tombstone'')
   \<and> ts_err (NewTombstoner fs_torn_tombstone ''engine/1.tombstone'') =
       Some (errors_New ''unexpected EOF'')
   \<and> FailedToWalk ''engine/1.tombstone'' (errors_New ''unexpected EOF'') 1
       \<in> set (snd (verify_tombstone fs_torn_tombstone ''engine'' False False))
   \<and> fst (verify_tombstone fs_torn_tombstone ''engine'' False False) =
       Some (errors_New ''failed tombstone verification'')"
  using failed_walk_reports_last_okay_entry [of fs_torn_tombstone "''engine''"
      "''engine/1.tombstone''" "errors_New ''unexpected EOF''" quiet "[]" False False]
  by (simp add: fs_torn_tombstone_facts HasTombstones_def)

theorem no_tombstones_is_not_an_error_witness:
  "walk_ok fs_tombstones ''engine''
   \<and> \<not> walk_fails fs_tombstones ''engine/1.tombstone''
   \<and> \<not> walk_fails fs_tombstones ''engine/2.tombstone''
   \<and> fst (verify_tombstone fs_tombstones ''engine'' False False) = None
   \<and> HasNoTombstoneEntries ''engine/1.tombstone''
       \<in> set (snd (verify_tombstone fs_tombstones ''engine'' False False))
   \<and> walk_ok fs_no_tombstones ''engine''
   \<and> verify_tombstone fs_no_tombstones ''engine'' False False = (None, [NoTombstoneFilesFound])"
  using no_tombstones_is_not_an_error [of fs_tombstones "''engine''" False False]
    no_tombstones_is_not_an_error [of fs_no_tombstones "''engine''" False False]
  by (simp add: fs_tombstones_facts fs_no_tombstones_facts walk_fails_def HasTombstones_def
      no_tombstones_def prod_eq_iff)

end
